theory Spec2Isabelle
  imports Main "HOL-Library.Sublist" "HOL-Library.AList"
begin

section \<open>Lexical path functions (Go \<open>path/filepath\<close> on Unix)\<close>

text \<open>
  \<open>lxd/device/cdi/hooks.go\<close> computes every path with \<open>filepath.IsAbs\<close>,
  \<open>filepath.Clean\<close>, \<open>filepath.Dir\<close>, \<open>filepath.Join\<close> and \<open>filepath.Rel\<close>.
  They are purely lexical.  A Go string is a byte sequence, here a \<^typ>\<open>string\<close>;
  the separator is the byte \<open>/\<close> and there is no volume name.  The functions are modelled
  over the path's elements (the maximal runs of bytes between separators), processed from
  left to right as the library's scanning loops do.
\<close>

definition Separator :: char where
  "Separator = CHR ''/''"

text \<open>\<open>IsAbs\<close>: the path begins with the separator.\<close>

definition IsAbs :: "string \<Rightarrow> bool" where
  "IsAbs path = (case path of [] \<Rightarrow> False | c # _ \<Rightarrow> c = Separator)"

text \<open>Splitting at every separator: \<open>n\<close> separators give \<open>n + 1\<close> elements, some of them empty.\<close>

fun split_sep :: "string \<Rightarrow> string list" where
  "split_sep [] = [[]]"
| "split_sep (c # cs) =
     (if c = Separator then [] # split_sep cs
      else (case split_sep cs of [] \<Rightarrow> [[c]] | e # es \<Rightarrow> (c # e) # es))"

text \<open>\<open>strings.Join(elems, "/")\<close>.\<close>

fun join_sep :: "string list \<Rightarrow> string" where
  "join_sep [] = []"
| "join_sep [e] = e"
| "join_sep (e # es) = e @ Separator # join_sep es"

text \<open>
  One round of the loop of \<open>Clean\<close>, on the element \<open>e\<close> with the elements written so far
  in \<open>out\<close>: an empty element and \<open>.\<close> are skipped; \<open>..\<close> removes the last element written
  when there is one to backtrack over (the library's \<open>out.w > dotdot\<close>: the buffer holds
  something after the leading run of \<open>..\<close>), is appended when the path is not rooted, and is
  dropped at the root; any other element is appended.
\<close>

definition clean_step :: "bool \<Rightarrow> string list \<Rightarrow> string \<Rightarrow> string list" where
  "clean_step rooted out e =
     (if e = [] \<or> e = ''.'' then out
      else if e = ''..'' then
        (if out \<noteq> [] \<and> last out \<noteq> ''..'' then butlast out
         else if \<not> rooted then out @ [''..'']
         else out)
      else out @ [e])"

definition Clean :: "string \<Rightarrow> string" where
  "Clean path =
     (if path = [] then ''.''
      else
        let rooted = IsAbs path;
            out = foldl (clean_step rooted) [] (split_sep path);
            s = (if rooted then [Separator] else []) @ join_sep out
        in if s = [] then ''.'' else s)"

text \<open>\<open>Dir\<close>: everything up to and including the last separator, cleaned.\<close>

definition Dir :: "string \<Rightarrow> string" where
  "Dir path = Clean (rev (dropWhile (\<lambda>c. c \<noteq> Separator) (rev path)))"

text \<open>\<open>Join\<close>: leading empty elements are ignored, the rest is joined and cleaned.\<close>

definition Join :: "string list \<Rightarrow> string" where
  "Join elem =
     (case dropWhile (\<lambda>e. e = []) elem of
        [] \<Rightarrow> []
      | es \<Rightarrow> Clean (join_sep es))"

text \<open>
  \<open>Rel\<close>.  Both paths are cleaned; equal paths give \<open>.\<close>; a rooted and an unrooted path
  cannot be related.  The loop then skips the elements the two paths share
  (\<open>rel_skip\<close>); what is left of the base is climbed with one \<open>..\<close> per element, followed
  by what is left of the target.  The loop of the library walks the bytes of a cleaned
  path, in which a separator never ends the path unless the path is the root: \<open>rel_elems\<close>
  gives the elements that loop sees.
\<close>

datatype path_error = RelError string string

definition rel_elems :: "string \<Rightarrow> string list" where
  "rel_elems p = (if p = [] then [] else if p = [Separator] then [[]] else split_sep p)"

fun rel_skip :: "string list \<Rightarrow> string list \<Rightarrow> string list \<times> string list" where
  "rel_skip (b # bs) (t # ts) = (if b = t then rel_skip bs ts else (b # bs, t # ts))"
| "rel_skip bs ts = (bs, ts)"

definition Rel :: "string \<Rightarrow> string \<Rightarrow> path_error + string" where
  "Rel basepath targpath =
     (let base = Clean basepath; targ = Clean targpath in
      if targ = base then Inr ''.''
      else
        let base = (if base = ''.'' then [] else base) in
        if IsAbs base \<noteq> IsAbs targ then Inl (RelError targpath basepath)
        else
          (case rel_skip (rel_elems base) (rel_elems targ) of (bs, ts) \<Rightarrow>
             if bs \<noteq> [] \<and> ts \<noteq> [] \<and> hd bs = ''..'' then Inl (RelError targpath basepath)
             else if bs \<noteq> [] then Inr (join_sep (replicate (length bs) ''..'' @ ts))
             else Inr (join_sep ts)))"

section \<open>The path resolver\<close>

text \<open>
  \<open>resolveTargetRelativeToLink\<close> (hooks.go, lines 66 to 89).  The two ways it fails are the
  two constructors of \<open>resolve_error\<close>: the \<open>fmt.Errorf\<close> of line 68, which carries the link
  and the target, and the error of \<open>filepath.Rel\<close>, returned as it is.
\<close>

datatype resolve_error = InvalidLink string string | PathError path_error

definition resolveTargetRelativeToLink :: "string \<Rightarrow> string \<Rightarrow> resolve_error + string" where
  "resolveTargetRelativeToLink link target =
     (if \<not> IsAbs link then Inl (InvalidLink link target)
      else if \<not> IsAbs target then Inr target
      else
        let linkClean = Clean link;
            targetClean = Clean target;
            linkDir = Dir linkClean
        in (case Rel linkDir targetClean of
              Inl err \<Rightarrow> Inl (PathError err)
            | Inr relPath \<Rightarrow> Inr relPath))"

section \<open>Strings and line scanning (Go \<open>strings\<close> and \<open>bufio\<close>)\<close>

text \<open>
  \<open>strings.TrimSpace\<close> removes the leading and the trailing white space of a string, as
  Unicode defines it.  A Go string holds UTF-8, so a white-space character is one of the
  byte sequences of \<open>white_space\<close>: the six ASCII ones, then U+0085, U+00A0, U+1680,
  U+2000 to U+200A, U+2028, U+2029, U+202F, U+205F and U+3000.
\<close>

definition white_space :: "string list" where
  "white_space =
     [[CHR 0x09], [CHR 0x0A], [CHR 0x0B], [CHR 0x0C], [CHR 0x0D], [CHR 0x20],
      [CHR 0xC2, CHR 0x85], [CHR 0xC2, CHR 0xA0],
      [CHR 0xE1, CHR 0x9A, CHR 0x80],
      [CHR 0xE2, CHR 0x80, CHR 0x80], [CHR 0xE2, CHR 0x80, CHR 0x81],
      [CHR 0xE2, CHR 0x80, CHR 0x82], [CHR 0xE2, CHR 0x80, CHR 0x83],
      [CHR 0xE2, CHR 0x80, CHR 0x84], [CHR 0xE2, CHR 0x80, CHR 0x85],
      [CHR 0xE2, CHR 0x80, CHR 0x86], [CHR 0xE2, CHR 0x80, CHR 0x87],
      [CHR 0xE2, CHR 0x80, CHR 0x88], [CHR 0xE2, CHR 0x80, CHR 0x89],
      [CHR 0xE2, CHR 0x80, CHR 0x8A],
      [CHR 0xE2, CHR 0x80, CHR 0xA8], [CHR 0xE2, CHR 0x80, CHR 0xA9],
      [CHR 0xE2, CHR 0x80, CHR 0xAF],
      [CHR 0xE2, CHR 0x81, CHR 0x9F],
      [CHR 0xE3, CHR 0x80, CHR 0x80]]"

text \<open>
  \<open>strip_runs qs s\<close> removes from the front of \<open>s\<close>, again and again, a sequence of \<open>qs\<close>
  that begins it.
\<close>

function strip_runs :: "string list \<Rightarrow> string \<Rightarrow> string" where
  "strip_runs qs s =
     (case find (\<lambda>q. q \<noteq> [] \<and> prefix q s) qs of
        None \<Rightarrow> s
      | Some q \<Rightarrow> strip_runs qs (drop (length q) s))"
  by pat_completeness auto
termination
  by (relation "measure (\<lambda>(qs, s). length s)")
    (auto simp: find_Some_iff prefix_def)

declare strip_runs.simps [simp del]

definition TrimSpace :: "string \<Rightarrow> string" where
  "TrimSpace s = rev (strip_runs (map rev white_space) (rev (strip_runs white_space s)))"

text \<open>
  \<open>bufio.Scanner\<close> with its default split function \<open>ScanLines\<close>: the input is cut at
  every newline, what follows the last newline is a line when it is not empty, and one
  trailing carriage return is dropped from each line.  The scanner's buffer holds at most
  \<open>MaxScanTokenSize\<close> bytes: at a line that does not fit, \<open>Scan\<close> returns false and the
  lines after it are never seen (hooks.go does not look at \<open>scanner.Err()\<close>).
\<close>

definition MaxScanTokenSize :: int where
  "MaxScanTokenSize = 64 * 1024"

fun split_nl :: "string \<Rightarrow> string list" where
  "split_nl [] = [[]]"
| "split_nl (c # cs) =
     (if c = CHR 0x0A then [] # split_nl cs
      else (case split_nl cs of [] \<Rightarrow> [[c]] | l # ls \<Rightarrow> (c # l) # ls))"

definition raw_lines :: "string \<Rightarrow> string list" where
  "raw_lines data = (let ls = split_nl data in if last ls = [] then butlast ls else ls)"

definition dropCR :: "string \<Rightarrow> string" where
  "dropCR l = (if l \<noteq> [] \<and> last l = CHR 0x0D then butlast l else l)"

definition scan_lines :: "string \<Rightarrow> string list" where
  "scan_lines data =
     map dropCR (takeWhile (\<lambda>l. int (length l) < MaxScanTokenSize) (raw_lines data))"

section \<open>The hook plan and its decoding (Go \<open>encoding/json\<close>)\<close>

text \<open>\<open>SymlinkEntry\<close> and \<open>Hooks\<close> (hooks.go, lines 34 to 48).\<close>

record SymlinkEntry =
  Target :: string
  Link :: string

record Hooks =
  ContainerRootFS :: string
  LDCacheUpdates :: "string list"
  Symlinks :: "SymlinkEntry list"

text \<open>
  A JSON document.  The members of an object are kept in the order of the text, and a name
  may occur more than once.
\<close>

datatype json =
    JNull
  | JBool bool
  | JNumber string
  | JString string
  | JArray "json list"
  | JObject "(string \<times> json) list"

text \<open>
  \<open>Decode\<close> fails in two ways: the text does not begin with a JSON value, or a value has
  a type the Go field cannot take.
\<close>

datatype json_error = SyntaxError | UnmarshalTypeError

text \<open>
  The name of a member selects a field when it is equal to the field's \<open>json\<close> tag under
  Unicode simple case folding; members that select no field are skipped.  The tags of
  hooks.go are lower-case ASCII letters and underscores.  Folding takes an upper-case
  ASCII letter to its lower-case letter, and two characters outside ASCII to an ASCII
  letter: U+017F (long s, the bytes C5 BF) to \<open>s\<close> and U+212A (Kelvin sign, the bytes
  E2 84 AA) to \<open>k\<close>.  \<open>fold_name\<close> folds the UTF-8 bytes of a name that way and leaves
  every other byte as it is, so that a name selects a tag when its folded bytes are the
  tag.
\<close>

definition lower :: "char \<Rightarrow> char" where
  "lower c = (let n = (of_char c :: nat) in if 65 \<le> n \<and> n \<le> 90 then char_of (n + 32) else c)"

fun fold_name :: "string \<Rightarrow> string" where
  "fold_name (a # b # c # cs) =
     (if a = CHR 0xE2 \<and> b = CHR 0x84 \<and> c = CHR 0xAA then CHR ''k'' # fold_name cs
      else if a = CHR 0xC5 \<and> b = CHR 0xBF then CHR ''s'' # fold_name (c # cs)
      else lower a # fold_name (b # c # cs))"
| "fold_name [a, b] =
     (if a = CHR 0xC5 \<and> b = CHR 0xBF then [CHR ''s''] else lower a # fold_name [b])"
| "fold_name [a] = [lower a]"
| "fold_name [] = []"

definition key_is :: "string \<Rightarrow> string \<Rightarrow> bool" where
  "key_is tag name = (fold_name name = tag)"

text \<open>
  A string field takes a JSON string; \<open>null\<close> leaves it as it is; anything else is a type
  error.
\<close>

fun decode_string :: "json \<Rightarrow> string \<Rightarrow> json_error + string" where
  "decode_string (JString s) old = Inr s"
| "decode_string JNull old = Inr old"
| "decode_string _ old = Inl UnmarshalTypeError"

text \<open>
  A slice field takes a JSON array; \<open>null\<close> makes it the nil slice.  The elements of the
  JSON array are decoded one by one, the one at position \<open>i\<close> into the element at position
  \<open>i\<close> of the array behind the slice when that array has one, into a zero element when it
  has not: when a member occurs twice in the document, its second array is decoded into
  the elements its first array left.  \<open>decode_list\<close> gives the elements of the slice;
  \<open>old\<close> is what the array behind the slice holds, the elements of the slice and after
  them those that a longer JSON array left there.  \<open>decode_slice\<close> gives the elements of
  the slice and what the array behind it holds afterwards; an empty JSON array gives a
  slice with a new, empty array.
\<close>

fun decode_list :: "(json \<Rightarrow> 'a \<Rightarrow> json_error + 'a) \<Rightarrow> 'a \<Rightarrow> json list \<Rightarrow> 'a list \<Rightarrow> json_error + 'a list" where
  "decode_list dec zero [] old = Inr []"
| "decode_list dec zero (j # js) old =
     (case dec j (case old of [] \<Rightarrow> zero | x # _ \<Rightarrow> x) of
        Inl e \<Rightarrow> Inl e
      | Inr x \<Rightarrow>
          (case decode_list dec zero js (tl old) of Inl e \<Rightarrow> Inl e | Inr xs \<Rightarrow> Inr (x # xs)))"

definition decode_slice :: "(json \<Rightarrow> 'a \<Rightarrow> json_error + 'a) \<Rightarrow> 'a \<Rightarrow> json \<Rightarrow> 'a list \<Rightarrow> json_error + 'a list \<times> 'a list" where
  "decode_slice dec zero v old =
     (case v of
        JArray js \<Rightarrow>
          (case decode_list dec zero js old of
             Inl e \<Rightarrow> Inl e
           | Inr xs \<Rightarrow> Inr (xs, if js = [] then [] else xs @ drop (length js) old))
      | JNull \<Rightarrow> Inr ([], [])
      | _ \<Rightarrow> Inl UnmarshalTypeError)"

definition decode_strings :: "json \<Rightarrow> string list \<Rightarrow> json_error + string list \<times> string list" where
  "decode_strings v old = decode_slice decode_string [] v old"

text \<open>A struct takes a JSON object, member after member; \<open>null\<close> leaves it as it is.\<close>

definition SymlinkEntry_member :: "SymlinkEntry \<Rightarrow> string \<times> json \<Rightarrow> json_error + SymlinkEntry" where
  "SymlinkEntry_member e m =
     (case m of (name, v) \<Rightarrow>
        if key_is ''target'' name then
          (case decode_string v (Target e) of Inl err \<Rightarrow> Inl err | Inr s \<Rightarrow> Inr (e\<lparr>Target := s\<rparr>))
        else if key_is ''link'' name then
          (case decode_string v (Link e) of Inl err \<Rightarrow> Inl err | Inr s \<Rightarrow> Inr (e\<lparr>Link := s\<rparr>))
        else Inr e)"

fun decode_members :: "('a \<Rightarrow> string \<times> json \<Rightarrow> json_error + 'a) \<Rightarrow> 'a \<Rightarrow> (string \<times> json) list \<Rightarrow> json_error + 'a" where
  "decode_members f x [] = Inr x"
| "decode_members f x (m # ms) =
     (case f x m of Inl err \<Rightarrow> Inl err | Inr x' \<Rightarrow> decode_members f x' ms)"

fun decode_SymlinkEntry :: "json \<Rightarrow> SymlinkEntry \<Rightarrow> json_error + SymlinkEntry" where
  "decode_SymlinkEntry (JObject ms) old = decode_members SymlinkEntry_member old ms"
| "decode_SymlinkEntry JNull old = Inr old"
| "decode_SymlinkEntry _ old = Inl UnmarshalTypeError"

definition decode_SymlinkEntries :: "json \<Rightarrow> SymlinkEntry list \<Rightarrow> json_error + SymlinkEntry list \<times> SymlinkEntry list" where
  "decode_SymlinkEntries v old = decode_slice decode_SymlinkEntry \<lparr>Target = [], Link = []\<rparr> v old"

text \<open>
  The \<open>Hooks\<close> being decoded: its fields, and what the arrays behind its two slices hold.
\<close>

record decoding =
  decoded :: Hooks
  LDCacheUpdates_array :: "string list"
  Symlinks_array :: "SymlinkEntry list"

definition Hooks_member :: "decoding \<Rightarrow> string \<times> json \<Rightarrow> json_error + decoding" where
  "Hooks_member d m =
     (case m of (name, v) \<Rightarrow>
        if key_is ''container_rootfs'' name then
          (case decode_string v (ContainerRootFS (decoded d)) of
             Inl err \<Rightarrow> Inl err
           | Inr s \<Rightarrow> Inr (d\<lparr>decoded := (decoded d)\<lparr>ContainerRootFS := s\<rparr>\<rparr>))
        else if key_is ''ld_cache_updates'' name then
          (case decode_strings v (LDCacheUpdates_array d) of
             Inl err \<Rightarrow> Inl err
           | Inr (us, arr) \<Rightarrow>
               Inr (d\<lparr>decoded := (decoded d)\<lparr>LDCacheUpdates := us\<rparr>, LDCacheUpdates_array := arr\<rparr>))
        else if key_is ''symlinks'' name then
          (case decode_SymlinkEntries v (Symlinks_array d) of
             Inl err \<Rightarrow> Inl err
           | Inr (es, arr) \<Rightarrow>
               Inr (d\<lparr>decoded := (decoded d)\<lparr>Symlinks := es\<rparr>, Symlinks_array := arr\<rparr>))
        else Inr d)"

text \<open>
  \<open>json.NewDecoder(hookFile).Decode(hooks)\<close> with \<open>hooks := &Hooks{}\<close> (lines 105 and 106),
  on the document read from the file.
\<close>

fun decode_Hooks :: "json \<Rightarrow> json_error + Hooks" where
  "decode_Hooks (JObject ms) =
     (case decode_members Hooks_member
             \<lparr>decoded = \<lparr>ContainerRootFS = [], LDCacheUpdates = [], Symlinks = []\<rparr>,
              LDCacheUpdates_array = [], Symlinks_array = []\<rparr> ms of
        Inl err \<Rightarrow> Inl err
      | Inr d \<Rightarrow> Inr (decoded d))"
| "decode_Hooks JNull = Inr \<lparr>ContainerRootFS = [], LDCacheUpdates = [], Symlinks = []\<rparr>"
| "decode_Hooks _ = Inl UnmarshalTypeError"

section \<open>The file system and the host (Go \<open>os\<close> and \<open>os/exec\<close> on Linux)\<close>

text \<open>
  The file system is a finite table from locations to nodes.  A location is the list of
  names from the root down to a node, after every symbolic link on the way has been
  followed.  The root is always a directory.  A process has a working directory, from
  which relative paths start.  The world also keeps, in order, the commands that were run
  as subprocesses.  Permission bits, owners and time stamps are not modelled.
\<close>

datatype errno = ENOENT | ENOTDIR | EEXIST | EISDIR | ENOTEMPTY | ELOOP | EBUSY | EBADF

datatype node = Directory | File string | Symlink string

type_synonym location = "string list"

record world =
  nodes :: "(location \<times> node) list"
  cwd :: location
  execs :: "(string \<times> string list) list"

definition node_at :: "world \<Rightarrow> location \<Rightarrow> node option" where
  "node_at w loc = (if loc = [] then Some Directory else map_of (nodes w) loc)"

definition put_node :: "location \<Rightarrow> node \<Rightarrow> world \<Rightarrow> world" where
  "put_node loc n w = w\<lparr>nodes := AList.update loc n (nodes w)\<rparr>"

definition del_node :: "location \<Rightarrow> world \<Rightarrow> world" where
  "del_node loc w = w\<lparr>nodes := AList.delete loc (nodes w)\<rparr>"

text \<open>
  Path resolution, as the kernel does it.  \<open>walk w fuel cur es follow\<close> goes from the
  directory \<open>cur\<close> through the elements \<open>es\<close>.  Every element is looked up in a directory;
  an empty element and \<open>.\<close> stay there, \<open>..\<close> goes to the parent.  A symbolic link met on the
  way is replaced by the elements of its target, from the root when the target is
  absolute; the last element is followed only when \<open>follow\<close> is set.  At most
  \<open>MAXSYMLINKS\<close> links are followed.  The result is the location reached, whether or not a
  node is there: only the last element may be missing.
\<close>

definition MAXSYMLINKS :: nat where
  "MAXSYMLINKS = 40"

function walk :: "world \<Rightarrow> nat \<Rightarrow> location \<Rightarrow> string list \<Rightarrow> bool \<Rightarrow> errno + location" where
  "walk w fuel cur [] follow = Inr cur"
| "walk w fuel cur (e # es) follow =
     (if node_at w cur \<noteq> Some Directory then
        Inl (if node_at w cur = None then ENOENT else ENOTDIR)
      else if e = [] \<or> e = ''.'' then walk w fuel cur es follow
      else if e = ''..'' then walk w fuel (butlast cur) es follow
      else
        (case node_at w (cur @ [e]) of
           Some (Symlink t) \<Rightarrow>
             if es = [] \<and> \<not> follow then Inr (cur @ [e])
             else if t = [] then Inl ENOENT
             else if fuel = 0 then Inl ELOOP
             else walk w (fuel - 1) (if IsAbs t then [] else cur) (split_sep t @ es) follow
         | _ \<Rightarrow> walk w fuel (cur @ [e]) es follow))"
  by pat_completeness auto
termination
  by (relation "measures [\<lambda>(w, fuel, cur, es, follow). fuel,
                          \<lambda>(w, fuel, cur, es, follow). length es]") auto

definition namei :: "world \<Rightarrow> bool \<Rightarrow> string \<Rightarrow> errno + location" where
  "namei w follow path =
     (if path = [] then Inl ENOENT
      else walk w MAXSYMLINKS (if IsAbs path then [] else cwd w) (split_sep path) follow)"

text \<open>\<open>os.Stat\<close> follows a link in the last element, \<open>os.Lstat\<close> does not.\<close>

definition Stat :: "world \<Rightarrow> string \<Rightarrow> errno + node" where
  "Stat w name =
     (case namei w True name of
        Inl e \<Rightarrow> Inl e
      | Inr loc \<Rightarrow> (case node_at w loc of None \<Rightarrow> Inl ENOENT | Some n \<Rightarrow> Inr n))"

definition Lstat :: "world \<Rightarrow> string \<Rightarrow> errno + node" where
  "Lstat w name =
     (case namei w False name of
        Inl e \<Rightarrow> Inl e
      | Inr loc \<Rightarrow> (case node_at w loc of None \<Rightarrow> Inl ENOENT | Some n \<Rightarrow> Inr n))"

text \<open>
  \<open>os.Mkdir\<close>: the kernel ignores separators at the end of the name of the directory to
  make; whatever is at the location, a link included, makes it fail.
\<close>

definition strip_trailing_seps :: "string \<Rightarrow> string" where
  "strip_trailing_seps path =
     (case rev (dropWhile (\<lambda>c. c = Separator) (rev path)) of
        [] \<Rightarrow> (if path = [] then [] else [Separator])
      | p \<Rightarrow> p)"

definition Mkdir :: "string \<Rightarrow> world \<Rightarrow> errno option \<times> world" where
  "Mkdir name w =
     (case namei w False (strip_trailing_seps name) of
        Inl e \<Rightarrow> (Some e, w)
      | Inr loc \<Rightarrow>
          if node_at w loc \<noteq> None then (Some EEXIST, w)
          else (None, put_node loc Directory w))"

text \<open>
  \<open>os.MkdirAll\<close>: nothing to do when the path is a directory already; otherwise the
  parent, which is the path up to the separator before its last element, is made first,
  then the directory itself; when that fails and the path is a directory after all
  (\<open>foo/.\<close>), this is success.
\<close>

definition parent_prefix :: "string \<Rightarrow> string" where
  "parent_prefix path =
     rev (dropWhile (\<lambda>c. c \<noteq> Separator) (dropWhile (\<lambda>c. c = Separator) (rev path)))"

function MkdirAll :: "string \<Rightarrow> world \<Rightarrow> errno option \<times> world" where
  "MkdirAll path w =
     (case Stat w path of
        Inr n \<Rightarrow> (if n = Directory then (None, w) else (Some ENOTDIR, w))
      | Inl _ \<Rightarrow>
          (case (if parent_prefix path \<noteq> [] then MkdirAll (parent_prefix path) w else (None, w)) of
             (Some e, w1) \<Rightarrow> (Some e, w1)
           | (None, w1) \<Rightarrow>
               (case Mkdir path w1 of
                  (Some e, w2) \<Rightarrow>
                    (case Lstat w2 path of
                       Inr Directory \<Rightarrow> (None, w2)
                     | _ \<Rightarrow> (Some e, w2))
                | (None, w2) \<Rightarrow> (None, w2))))"
  by pat_completeness auto
termination
proof (relation "measure (\<lambda>(path, w). length path)")
  fix path :: string and w :: world
  assume ne: "parent_prefix path \<noteq> []"
  let ?a = "dropWhile (\<lambda>c. c = Separator) (rev path)"
  have a: "length ?a \<le> length path"
    using length_dropWhile_le [of "\<lambda>c. c = Separator" "rev path"] by simp
  have "parent_prefix path = []" if e: "?a = []"
    unfolding parent_prefix_def e by simp
  with ne have "?a \<noteq> []" by blast
  then have "hd ?a \<noteq> Separator"
    using hd_dropWhile [of "\<lambda>c. c = Separator" "rev path"] by blast
  then have "length (dropWhile (\<lambda>c. c \<noteq> Separator) ?a) < length ?a"
    using \<open>?a \<noteq> []\<close> length_dropWhile_le [of "\<lambda>c. c \<noteq> Separator" "tl ?a"]
    by (cases ?a) auto
  with a have "length (parent_prefix path) < length path"
    by (simp add: parent_prefix_def)
  then show "((parent_prefix path, w), (path, w)) \<in> measure (\<lambda>(path, w). length path)"
    by simp
qed simp

text \<open>
  \<open>os.Symlink\<close>: the link is made at the new name, which is not followed; it fails when
  something is there, and a link cannot have an empty target.
\<close>

definition Symlink_os :: "string \<Rightarrow> string \<Rightarrow> world \<Rightarrow> errno option \<times> world" where
  "Symlink_os oldname newname w =
     (if oldname = [] then (Some ENOENT, w)
      else
        (case namei w False newname of
           Inl e \<Rightarrow> (Some e, w)
         | Inr loc \<Rightarrow>
             if node_at w loc \<noteq> None then (Some EEXIST, w)
             else (None, put_node loc (Symlink oldname) w)))"

text \<open>
  \<open>os.Remove\<close> tries \<open>unlink\<close>, then \<open>rmdir\<close>, and reports the error of \<open>rmdir\<close> unless
  that is \<open>ENOTDIR\<close>.
\<close>

definition unlink :: "string \<Rightarrow> world \<Rightarrow> errno option \<times> world" where
  "unlink name w =
     (case namei w False name of
        Inl e \<Rightarrow> (Some e, w)
      | Inr loc \<Rightarrow>
          (case node_at w loc of
             None \<Rightarrow> (Some ENOENT, w)
           | Some Directory \<Rightarrow> (Some EISDIR, w)
           | Some _ \<Rightarrow> (None, del_node loc w)))"

definition has_children :: "world \<Rightarrow> location \<Rightarrow> bool" where
  "has_children w loc = (\<exists>(p, n) \<in> set (nodes w). p \<noteq> [] \<and> butlast p = loc)"

definition rmdir :: "string \<Rightarrow> world \<Rightarrow> errno option \<times> world" where
  "rmdir name w =
     (case namei w False (strip_trailing_seps name) of
        Inl e \<Rightarrow> (Some e, w)
      | Inr loc \<Rightarrow>
          (case node_at w loc of
             None \<Rightarrow> (Some ENOENT, w)
           | Some Directory \<Rightarrow>
               if loc = [] then (Some EBUSY, w)
               else if has_children w loc then (Some ENOTEMPTY, w)
               else (None, del_node loc w)
           | Some _ \<Rightarrow> (Some ENOTDIR, w)))"

definition Remove :: "string \<Rightarrow> world \<Rightarrow> errno option \<times> world" where
  "Remove name w =
     (case unlink name w of
        (None, w1) \<Rightarrow> (None, w1)
      | (Some e, _) \<Rightarrow>
          (case rmdir name w of
             (None, w1) \<Rightarrow> (None, w1)
           | (Some e1, _) \<Rightarrow> (Some (if e1 \<noteq> ENOTDIR then e1 else e), w)))"

text \<open>
  \<open>os.OpenFile\<close> with the flags hooks.go uses.  The name is followed to its end.  A
  missing file is made, empty, under \<open>O_CREATE\<close>; a directory cannot be opened for
  writing.  An open file is its location, the offset of the next write, and whether it
  was opened with \<open>O_APPEND\<close>.
\<close>

datatype flag = O_RDONLY | O_WRONLY | O_RDWR | O_APPEND | O_CREATE

record handle =
  h_loc :: location
  h_pos :: nat
  h_append :: bool

definition OpenFile :: "string \<Rightarrow> flag list \<Rightarrow> world \<Rightarrow> (errno + handle) \<times> world" where
  "OpenFile name flags w =
     (let h = (\<lambda>loc. \<lparr>h_loc = loc, h_pos = 0, h_append = (O_APPEND \<in> set flags)\<rparr>) in
      case namei w True name of
        Inl e \<Rightarrow> (Inl e, w)
      | Inr loc \<Rightarrow>
          (case node_at w loc of
             None \<Rightarrow>
               if O_CREATE \<in> set flags then (Inr (h loc), put_node loc (File []) w)
               else (Inl ENOENT, w)
           | Some Directory \<Rightarrow>
               if O_WRONLY \<in> set flags \<or> O_RDWR \<in> set flags \<or> O_CREATE \<in> set flags
               then (Inl EISDIR, w)
               else (Inr (h loc), w)
           | Some (File _) \<Rightarrow> (Inr (h loc), w)
           | Some (Symlink _) \<Rightarrow> (Inl ELOOP, w)))"

text \<open>Reading an open file to its end.\<close>

definition read_all :: "handle \<Rightarrow> world \<Rightarrow> errno + string" where
  "read_all f w =
     (case node_at w (h_loc f) of
        Some (File data) \<Rightarrow> Inr (drop (h_pos f) data)
      | Some Directory \<Rightarrow> Inl EISDIR
      | _ \<Rightarrow> Inl EBADF)"

text \<open>
  Writing to an open file: at the end under \<open>O_APPEND\<close>, at the file's offset otherwise
  (a gap is filled with zero bytes).
\<close>

definition Write :: "handle \<Rightarrow> string \<Rightarrow> world \<Rightarrow> errno option \<times> handle \<times> world" where
  "Write f b w =
     (case node_at w (h_loc f) of
        Some (File data) \<Rightarrow>
          if h_append f then (None, f, put_node (h_loc f) (File (data @ b)) w)
          else
            (None, f\<lparr>h_pos := h_pos f + length b\<rparr>,
             put_node (h_loc f)
               (File (take (h_pos f) (data @ replicate (h_pos f - length data) (CHR 0x00))
                      @ b @ drop (h_pos f + length b) data)) w)
      | _ \<Rightarrow> (Some EBADF, f, w))"

text \<open>\<open>fmt.Fprintln(f, s)\<close>: one write of \<open>s\<close> and a newline.\<close>

definition Fprintln :: "handle \<Rightarrow> string \<Rightarrow> world \<Rightarrow> errno option \<times> handle \<times> world" where
  "Fprintln f s w = Write f (s @ [CHR 0x0A]) w"

text \<open>
  What \<open>errors.Is(err, fs.ErrExist)\<close>, \<open>errors.Is(err, os.ErrNotExist)\<close> and
  \<open>os.IsNotExist(err)\<close> answer for the error of a system call.
\<close>

definition is_ErrExist :: "errno \<Rightarrow> bool" where
  "is_ErrExist e = (e = EEXIST \<or> e = ENOTEMPTY)"

definition is_ErrNotExist :: "errno \<Rightarrow> bool" where
  "is_ErrNotExist e = (e = ENOENT)"

text \<open>
  The host: what a command does when it is run (the error of \<open>CombinedOutput\<close>, if any, the
  output, and the world it leaves), and the reader of JSON text, which gives the document
  that \<open>Decode\<close> reads from a text: the first JSON value in it (what follows that value is
  not looked at), and no document when the text does not begin with a JSON value.  Both
  are parameters of the model, and nothing is proved about what they give.
  \<open>CombinedOutput\<close> records the command in \<open>execs\<close>.
\<close>

record host =
  run_command :: "string \<Rightarrow> string list \<Rightarrow> world \<Rightarrow> (string option \<times> string) \<times> world"
  json_parse :: "string \<Rightarrow> json option"

definition CombinedOutput :: "host \<Rightarrow> string \<Rightarrow> string list \<Rightarrow> world \<Rightarrow> (string option \<times> string) \<times> world" where
  "CombinedOutput h name args w =
     (case run_command h name args w of
        (r, w1) \<Rightarrow> (r, w1\<lparr>execs := execs w @ [(name, args)]\<rparr>))"

section \<open>Applying the hooks\<close>

text \<open>
  \<open>ApplyHooksToContainer\<close> (hooks.go, lines 97 to 210).  Each \<open>return fmt.Errorf(...)\<close> of
  the function is a constructor of \<open>error\<close>, with the error it wraps.  The function is
  given in the order of the source: reading the plan (lines 98 to 109), the loop over the
  symlinks (lines 112 to 132), the linker configuration (lines 137 to 190) and the linker
  cache (lines 193 to 206).  Every part returns the world it leaves, also when it fails:
  nothing is undone.
\<close>

datatype error =
    FailedOpeningHooksFile errno
  | FailedDecodingHooksFile "errno + json_error"
  | FailedResolvingSymlink resolve_error
  | FailedCreatingSymlinkDirectory errno
  | FailedCreatingSymlink errno
  | FailedCreatingLinkerConfDirectory errno
  | FailedOpeningLinkerConf errno
  | FailedWritingLinkerConf errno
  | FailedCreatingLinkerConf errno
  | CouldNotStatLinkerConf errno
  | FailedRemovingLinkerCache errno
  | FailedRunningLdconfig string string

definition customCDILinkerConfFile :: string where
  "customCDILinkerConfFile = ''00-lxdcdi.conf''"

text \<open>Lines 98 to 109: the file is opened for reading and one JSON value is decoded from it.\<close>

definition load_hooks :: "host \<Rightarrow> string \<Rightarrow> world \<Rightarrow> error + Hooks" where
  "load_hooks h hooksFilePath w =
     (case OpenFile hooksFilePath [O_RDONLY] w of
        (Inl e, _) \<Rightarrow> Inl (FailedOpeningHooksFile e)
      | (Inr hookFile, w1) \<Rightarrow>
          (case read_all hookFile w1 of
             Inl e \<Rightarrow> Inl (FailedDecodingHooksFile (Inl e))
           | Inr text \<Rightarrow>
               (case json_parse h text of
                  None \<Rightarrow> Inl (FailedDecodingHooksFile (Inr SyntaxError))
                | Some doc \<Rightarrow>
                    (case decode_Hooks doc of
                       Inl e \<Rightarrow> Inl (FailedDecodingHooksFile (Inr e))
                     | Inr hooks \<Rightarrow> Inr hooks))))"

text \<open>Lines 112 to 132: the loop over \<open>hooks.Symlinks\<close>.\<close>

fun create_symlinks :: "string \<Rightarrow> SymlinkEntry list \<Rightarrow> world \<Rightarrow> error option \<times> world" where
  "create_symlinks containerRootFSMount [] w = (None, w)"
| "create_symlinks containerRootFSMount (symlink # rest) w =
     (case resolveTargetRelativeToLink (Link symlink) (Target symlink) of
        Inl err \<Rightarrow> (Some (FailedResolvingSymlink err), w)
      | Inr target \<Rightarrow>
          (case MkdirAll (Dir (Join [containerRootFSMount, Link symlink])) w of
             (Some err, w1) \<Rightarrow> (Some (FailedCreatingSymlinkDirectory err), w1)
           | (None, w1) \<Rightarrow>
               (case Symlink_os target (Join [containerRootFSMount, Link symlink]) w1 of
                  (Some err, w2) \<Rightarrow>
                    if \<not> is_ErrExist err then (Some (FailedCreatingSymlink err), w2)
                    else create_symlinks containerRootFSMount rest w2
                | (None, w2) \<Rightarrow> create_symlinks containerRootFSMount rest w2)))"

text \<open>
  Lines 153 to 157: the set of the lines of the file, each trimmed.  Lines 159 to 169: the
  updates that are not in the set are written, and put into the set.
\<close>

definition existing_entries :: "handle \<Rightarrow> world \<Rightarrow> string set" where
  "existing_entries ldConfFile w =
     (case read_all ldConfFile w of
        Inl _ \<Rightarrow> {}
      | Inr text \<Rightarrow> set (map TrimSpace (scan_lines text)))"

fun append_missing :: "string set \<Rightarrow> string list \<Rightarrow> handle \<Rightarrow> world \<Rightarrow> errno option \<times> world" where
  "append_missing existingLinkerEntries [] ldConfFile w = (None, w)"
| "append_missing existingLinkerEntries (update # rest) ldConfFile w =
     (if update \<notin> existingLinkerEntries then
        (case Fprintln ldConfFile update w of
           (Some err, _, w1) \<Rightarrow> (Some err, w1)
         | (None, f1, w1) \<Rightarrow> append_missing (insert update existingLinkerEntries) rest f1 w1)
      else append_missing existingLinkerEntries rest ldConfFile w)"

text \<open>Lines 179 to 185: every update is written.\<close>

fun write_entries :: "string list \<Rightarrow> handle \<Rightarrow> world \<Rightarrow> errno option \<times> world" where
  "write_entries [] ldConfFile w = (None, w)"
| "write_entries (update # rest) ldConfFile w =
     (case Fprintln ldConfFile update w of
        (Some err, _, w1) \<Rightarrow> (Some err, w1)
      | (None, f1, w1) \<Rightarrow> write_entries rest f1 w1)"

text \<open>Lines 137 to 190: the linker configuration file is brought up to date.\<close>

definition ldConfFilePath :: "string \<Rightarrow> string" where
  "ldConfFilePath containerRootFSMount =
     containerRootFSMount @ ''/etc/ld.so.conf.d/'' @ customCDILinkerConfFile"

definition merge_linker_conf :: "string \<Rightarrow> string list \<Rightarrow> world \<Rightarrow> error option \<times> world" where
  "merge_linker_conf containerRootFSMount updates w =
     (case MkdirAll (Join [containerRootFSMount, ''etc'', ''ld.so.conf.d'']) w of
        (Some err, w1) \<Rightarrow> (Some (FailedCreatingLinkerConfDirectory err), w1)
      | (None, w1) \<Rightarrow>
          (case Stat w1 (ldConfFilePath containerRootFSMount) of
             Inr _ \<Rightarrow>
               (case OpenFile (ldConfFilePath containerRootFSMount) [O_APPEND, O_RDWR] w1 of
                  (Inl err, w2) \<Rightarrow> (Some (FailedOpeningLinkerConf err), w2)
                | (Inr ldConfFile, w2) \<Rightarrow>
                    (case append_missing (existing_entries ldConfFile w2) updates ldConfFile w2 of
                       (Some err, w3) \<Rightarrow> (Some (FailedWritingLinkerConf err), w3)
                     | (None, w3) \<Rightarrow> (None, w3)))
           | Inl err \<Rightarrow>
               if is_ErrNotExist err then
                 (case OpenFile (ldConfFilePath containerRootFSMount) [O_CREATE, O_WRONLY] w1 of
                    (Inl err, w2) \<Rightarrow> (Some (FailedCreatingLinkerConf err), w2)
                  | (Inr ldConfFile, w2) \<Rightarrow>
                      (case write_entries updates ldConfFile w2 of
                         (Some err, w3) \<Rightarrow> (Some (FailedWritingLinkerConf err), w3)
                       | (None, w3) \<Rightarrow> (None, w3)))
               else (Some (CouldNotStatLinkerConf err), w1)))"

text \<open>Lines 193 to 206: the linker cache is removed and \<open>ldconfig\<close> is run on the host.\<close>

definition regenerate_linker_cache :: "host \<Rightarrow> string \<Rightarrow> world \<Rightarrow> error option \<times> world" where
  "regenerate_linker_cache h containerRootFSMount w =
     (case Remove (Join [containerRootFSMount, ''etc'', ''ld.so.cache'']) w of
        (Some err, w1) \<Rightarrow>
          if \<not> is_ErrNotExist err then (Some (FailedRemovingLinkerCache err), w1)
          else
            (case CombinedOutput h ''/sbin/ldconfig'' [''-r'', containerRootFSMount] w1 of
               ((Some err, output), w2) \<Rightarrow> (Some (FailedRunningLdconfig err output), w2)
             | ((None, _), w2) \<Rightarrow> (None, w2))
      | (None, w1) \<Rightarrow>
          (case CombinedOutput h ''/sbin/ldconfig'' [''-r'', containerRootFSMount] w1 of
             ((Some err, output), w2) \<Rightarrow> (Some (FailedRunningLdconfig err output), w2)
           | ((None, _), w2) \<Rightarrow> (None, w2)))"

definition ApplyHooksToContainer :: "host \<Rightarrow> string \<Rightarrow> string \<Rightarrow> world \<Rightarrow> error option \<times> world" where
  "ApplyHooksToContainer h hooksFilePath containerRootFSMount w =
     (case load_hooks h hooksFilePath w of
        Inl err \<Rightarrow> (Some err, w)
      | Inr hooks \<Rightarrow>
          (case create_symlinks containerRootFSMount (Symlinks hooks) w of
             (Some err, w1) \<Rightarrow> (Some err, w1)
           | (None, w1) \<Rightarrow>
               if length (LDCacheUpdates hooks) > 0 then
                 (case merge_linker_conf containerRootFSMount (LDCacheUpdates hooks) w1 of
                    (Some err, w2) \<Rightarrow> (Some err, w2)
                  | (None, w2) \<Rightarrow> regenerate_linker_cache h containerRootFSMount w2)
               else (None, w1)))"


section \<open>Notions used in the proofs\<close>

text \<open>
  An element that \<open>Clean\<close> keeps as it is: not empty, not \<open>.\<close>, not \<open>..\<close>, and free of
  separators.  A cleaned absolute path is the separator followed by such elements, joined.
\<close>

definition plain :: "string \<Rightarrow> bool" where
  "plain e = (e \<noteq> [] \<and> e \<noteq> ''.'' \<and> e \<noteq> ''..'' \<and> Separator \<notin> set e)"

definition rooted_path :: "string list \<Rightarrow> string" where
  "rooted_path cs = Separator # join_sep cs"

text \<open>
  \<open>extends w w'\<close>: the world \<open>w'\<close> has every node of \<open>w\<close>, unchanged, and no regular file
  that \<open>w\<close> does not have; the working directory and the commands run are the same.
\<close>

definition extends :: "world \<Rightarrow> world \<Rightarrow> bool" where
  "extends w w' =
     (cwd w' = cwd w \<and> execs w' = execs w \<and>
      (\<forall>loc n. node_at w loc = Some n \<longrightarrow> node_at w' loc = Some n) \<and>
      (\<forall>loc text. node_at w' loc = Some (File text) \<longrightarrow> node_at w loc = Some (File text)))"

section \<open>Example inputs\<close>

text \<open>
  A host whose commands succeed and change nothing and whose JSON reader gives the
  documents of six texts, and a world with five of these plans, a container root at
  \<open>/fs\<close>, a linker cache and a linker configuration file.
\<close>

definition plan_texts :: "(string \<times> json) list" where
  \<open>plan_texts =
     [(''{}'', JObject []),
      (''{"symlinks":"none"}'', JObject [(''symlinks'', JString ''none'')]),
      (''{"'' @ [CHR 0xC5, CHR 0xBF] @ ''ymlinks":5}'',
       JObject [([CHR 0xC5, CHR 0xBF] @ ''ymlinks'', JNumber ''5'')]),
      (''{"symlinks":[{"target":"/opt/conf","link":"/etc/ld.so.conf.d/00-lxdcdi.conf"}]}'',
       JObject [(''symlinks'', JArray [JObject [(''target'', JString ''/opt/conf''),
                                                 (''link'', JString ''/etc/ld.so.conf.d/00-lxdcdi.conf'')]])]),
      (''{"symlinks":[{"target":"/usr/lib/libfoo.so","link":"/usr/lib/x/libfoo.so"}]}'',
       JObject [(''symlinks'', JArray [JObject [(''target'', JString ''/usr/lib/libfoo.so''),
                                                 (''link'', JString ''/usr/lib/x/libfoo.so'')]])]),
      (''{"ld_cache_updates":["/usr/lib/x"],"symlinks":[{"target":"/usr/lib/libfoo.so","link":"/usr/lib/x/libfoo.so"},{"target":"libbar.so","link":"usr/lib/x/libbar.so"}]}'',
       JObject [(''ld_cache_updates'', JArray [JString ''/usr/lib/x'']),
                (''symlinks'', JArray [JObject [(''target'', JString ''/usr/lib/libfoo.so''),
                                                 (''link'', JString ''/usr/lib/x/libfoo.so'')],
                                        JObject [(''target'', JString ''libbar.so''),
                                                 (''link'', JString ''usr/lib/x/libbar.so'')]])])]\<close>

definition example_host :: host where
  "example_host =
     \<lparr>run_command = (\<lambda>name args w. ((None, []), w)),
      json_parse = map_of plan_texts\<rparr>"

definition example_world :: world where
  \<open>example_world =
     \<lparr>nodes =
        [([''plans''], Directory),
         ([''plans'', ''empty.json''], File ''{}''),
         ([''plans'', ''wrong.json''], File ''{"symlinks":"none"}''),
         ([''plans'', ''folded.json''], File (''{"'' @ [CHR 0xC5, CHR 0xBF] @ ''ymlinks":5}'')),
         ([''plans'', ''links.json''],
          File ''{"symlinks":[{"target":"/usr/lib/libfoo.so","link":"/usr/lib/x/libfoo.so"}]}''),
         ([''plans'', ''bad.json''],
          File ''{"ld_cache_updates":["/usr/lib/x"],"symlinks":[{"target":"/usr/lib/libfoo.so","link":"/usr/lib/x/libfoo.so"},{"target":"libbar.so","link":"usr/lib/x/libbar.so"}]}''),
         ([''fs''], Directory),
         ([''fs'', ''etc''], Directory),
         ([''fs'', ''etc'', ''ld.so.cache''], File ''cache''),
         ([''fs'', ''etc'', ''ld.so.conf.d''], Directory),
         ([''fs'', ''etc'', ''ld.so.conf.d'', ''00-lxdcdi.conf''], File (''/opt/a/lib'' @ [CHR 0x0A]))],
      cwd = [],
      execs = []\<rparr>\<close>

text \<open>
  The elements of a list in the order of their first occurrence, each once; and the text
  made of the given lines, each ended by a newline.
\<close>

definition first_occurrences :: "'a list \<Rightarrow> 'a list" where
  "first_occurrences xs = rev (remdups (rev xs))"

definition lines_of :: "string list \<Rightarrow> string" where
  "lines_of us = concat (map (\<lambda>u. u @ [CHR 0x0A]) us)"

section \<open>The shape of a plan document\<close>

text \<open>
  What the decoder asks of a document, said without the decoder: the top-level value is
  an object or \<open>null\<close>; a member that names \<open>container_rootfs\<close> holds a string or \<open>null\<close>;
  one that names \<open>ld_cache_updates\<close> holds \<open>null\<close> or an array of strings and \<open>null\<close>s;
  one that names \<open>symlinks\<close> holds \<open>null\<close> or an array of entries, an entry being \<open>null\<close>
  or an object whose \<open>target\<close> and \<open>link\<close> members hold strings or \<open>null\<close>.  Nothing asks
  for a member to be there: \<open>lacks tag doc\<close> says that no member of \<open>doc\<close> names \<open>tag\<close>.
\<close>

definition string_or_null :: "json \<Rightarrow> bool" where
  "string_or_null j = (case j of JString _ \<Rightarrow> True | JNull \<Rightarrow> True | _ \<Rightarrow> False)"

definition array_of :: "(json \<Rightarrow> bool) \<Rightarrow> json \<Rightarrow> bool" where
  "array_of ok j = (case j of JArray js \<Rightarrow> list_all ok js | JNull \<Rightarrow> True | _ \<Rightarrow> False)"

definition entry_shape :: "json \<Rightarrow> bool" where
  "entry_shape j =
     (case j of
        JObject ms \<Rightarrow>
          list_all (\<lambda>(name, v). (key_is ''target'' name \<or> key_is ''link'' name) \<longrightarrow> string_or_null v) ms
      | JNull \<Rightarrow> True
      | _ \<Rightarrow> False)"

definition plan_shape :: "json \<Rightarrow> bool" where
  "plan_shape j =
     (case j of
        JObject ms \<Rightarrow>
          list_all (\<lambda>(name, v).
            (key_is ''container_rootfs'' name \<longrightarrow> string_or_null v) \<and>
            (key_is ''ld_cache_updates'' name \<longrightarrow> array_of string_or_null v) \<and>
            (key_is ''symlinks'' name \<longrightarrow> array_of entry_shape v)) ms
      | JNull \<Rightarrow> True
      | _ \<Rightarrow> False)"

definition lacks :: "string \<Rightarrow> json \<Rightarrow> bool" where
  "lacks tag j = (case j of JObject ms \<Rightarrow> list_all (\<lambda>(name, v). \<not> key_is tag name) ms | _ \<Rightarrow> True)"

text \<open>
  A world that holds nothing but the container root; one whose linker configuration file
  has a line with white space around it; one whose linker configuration file does not end
  with a newline; and one with a container root that has no linker configuration, and a
  plan without updates whose only symlink is at the path of the linker configuration file.
\<close>

definition bare_world :: world where
  "bare_world = \<lparr>nodes = [([''fs''], Directory)], cwd = [], execs = []\<rparr>"

definition spaced_world :: world where
  "spaced_world =
     \<lparr>nodes =
        [([''fs''], Directory),
         ([''fs'', ''etc''], Directory),
         ([''fs'', ''etc'', ''ld.so.conf.d''], Directory),
         ([''fs'', ''etc'', ''ld.so.conf.d'', ''00-lxdcdi.conf''],
          File (''  /opt/a/lib '' @ [CHR 0x0A]))],
      cwd = [],
      execs = []\<rparr>"

definition unterminated_world :: world where
  "unterminated_world =
     \<lparr>nodes =
        [([''fs''], Directory),
         ([''fs'', ''etc''], Directory),
         ([''fs'', ''etc'', ''ld.so.conf.d''], Directory),
         ([''fs'', ''etc'', ''ld.so.conf.d'', ''00-lxdcdi.conf''], File ''/opt/a/lib'')],
      cwd = [],
      execs = []\<rparr>"

definition fresh_world :: world where
  \<open>fresh_world =
     \<lparr>nodes =
        [([''plans''], Directory),
         ([''plans'', ''conflink.json''],
          File ''{"symlinks":[{"target":"/opt/conf","link":"/etc/ld.so.conf.d/00-lxdcdi.conf"}]}''),
         ([''fs''], Directory)],
      cwd = [],
      execs = []\<rparr>\<close>

(*DEFS-END*)

section \<open>Properties of the lexical path functions\<close>

lemma split_sep_nonempty: "split_sep s \<noteq> []"
  by (induction s) (auto split: list.splits)

lemma split_sep_no_sep: "e \<in> set (split_sep s) \<Longrightarrow> Separator \<notin> set e"
  by (induction s arbitrary: e) (auto split: list.splits if_splits)

lemma split_sep_single: "Separator \<notin> set e \<Longrightarrow> split_sep e = [e]"
  by (induction e) auto

lemma split_sep_append: "split_sep (a @ Separator # b) = split_sep a @ split_sep b"
  by (induction a) (auto split: list.splits simp: split_sep_nonempty)

lemma split_sep_join:
  "es \<noteq> [] \<Longrightarrow> \<forall>e\<in>set es. Separator \<notin> set e \<Longrightarrow> split_sep (join_sep es) = es"
proof (induction es rule: join_sep.induct)
  case 1 then show ?case by simp
next
  case (2 e) then show ?case by (simp add: split_sep_single)
next
  case (3 e v va)
  then show ?case by (simp add: split_sep_append split_sep_single)
qed

lemma join_sep_snoc:
  "join_sep (xs @ [x]) = (if xs = [] then x else join_sep xs @ Separator # x)"
  by (induction xs rule: join_sep.induct) auto

lemma clean_fold_plain:
  "\<forall>e\<in>set cs. plain e \<Longrightarrow> foldl (clean_step r) out cs = out @ cs"
  by (induction cs arbitrary: out) (auto simp: clean_step_def plain_def)

lemma clean_fold_dotdot:
  "\<forall>e\<in>set xs. plain e \<Longrightarrow>
   foldl (clean_step r) (out @ xs) (replicate (length xs) ''..'') = out"
proof (induction xs rule: rev_induct)
  case Nil then show ?case by simp
next
  case (snoc x xs)
  have "replicate (length (xs @ [x])) ''..'' = ''..'' # replicate (length xs) ''..''"
    by simp
  moreover have "clean_step r (out @ xs @ [x]) ''..'' = out @ xs"
    using snoc.prems by (simp add: clean_step_def plain_def butlast_append)
  ultimately show ?case using snoc by simp
qed

lemma clean_fold_keeps_plain:
  "\<forall>e\<in>set out. plain e \<Longrightarrow> \<forall>e\<in>set es. Separator \<notin> set e \<Longrightarrow>
   \<forall>e\<in>set (foldl (clean_step True) out es). plain e"
proof (induction es arbitrary: out)
  case Nil then show ?case by simp
next
  case (Cons e es)
  have "\<forall>x\<in>set (clean_step True out e). plain x"
    using Cons.prems by (auto simp: clean_step_def plain_def dest: in_set_butlastD)
  then show ?case using Cons by simp
qed

lemma Clean_abs:
  "Clean (Separator # r) = rooted_path (foldl (clean_step True) [] (split_sep r))"
  by (simp add: Clean_def IsAbs_def rooted_path_def Let_def clean_step_def)

lemma Clean_abs_plain:
  assumes "IsAbs p"
  obtains cs where "Clean p = rooted_path cs" and "\<forall>e\<in>set cs. plain e"
proof -
  from assms obtain r where p: "p = Separator # r"
    by (auto simp: IsAbs_def split: list.splits)
  let ?cs = "foldl (clean_step True) [] (split_sep r)"
  have "\<forall>e\<in>set ?cs. plain e"
    by (rule clean_fold_keeps_plain) (auto dest: split_sep_no_sep)
  with p Clean_abs show ?thesis using that by blast
qed

lemma split_sep_join_plain:
  "\<forall>e\<in>set cs. plain e \<Longrightarrow> cs \<noteq> [] \<Longrightarrow> split_sep (join_sep cs) = cs"
  by (rule split_sep_join) (auto simp: plain_def)

lemma Clean_rooted_path:
  assumes "\<forall>e\<in>set cs. plain e"
  shows "Clean (rooted_path cs) = rooted_path cs"
proof (cases "cs = []")
  case True
  then show ?thesis by (simp add: rooted_path_def Clean_def IsAbs_def Let_def clean_step_def)
next
  case False
  with assms show ?thesis
    unfolding rooted_path_def Clean_abs
    by (simp add: split_sep_join_plain clean_fold_plain rooted_path_def)
qed

lemma through_last_sep:
  "Separator \<notin> set x \<Longrightarrow>
   rev (dropWhile (\<lambda>c. c \<noteq> Separator) (rev (a @ Separator # x))) = a @ [Separator]"
proof -
  assume "Separator \<notin> set x"
  then have "dropWhile (\<lambda>c. c \<noteq> Separator) (rev x @ Separator # rev a) = Separator # rev a"
    by (subst dropWhile_append2) auto
  then show ?thesis by simp
qed

lemma rooted_path_Nil: "rooted_path [] = [Separator]"
  by (simp add: rooted_path_def)

lemma join_sep_plain_nonempty: "cs \<noteq> [] \<Longrightarrow> \<forall>e\<in>set cs. plain e \<Longrightarrow> join_sep cs \<noteq> []"
  by (induction cs rule: join_sep.induct) (auto simp: plain_def)

lemma dot_no_sep: "CHR ''.'' \<noteq> Separator" "Separator \<noteq> CHR ''.''"
  by (simp_all add: Separator_def)

lemma rooted_path_snoc:
  "rooted_path (xs @ [x]) = (if xs = [] then [] else rooted_path xs) @ Separator # x"
  by (simp add: rooted_path_def join_sep_snoc)

lemma Clean_trailing_sep:
  assumes "\<forall>e\<in>set xs. plain e" and "xs \<noteq> []"
  shows "Clean (rooted_path xs @ [Separator]) = rooted_path xs"
proof -
  have "split_sep (join_sep xs @ [Separator]) = xs @ [[]]"
    using assms split_sep_append [of "join_sep xs" "[]"] by (simp add: split_sep_join_plain)
  then show ?thesis
    using assms unfolding rooted_path_def append_Cons Clean_abs
    by (simp add: clean_fold_plain clean_step_def rooted_path_def)
qed

lemma Clean_root: "Clean [Separator] = [Separator]"
  by (simp add: Clean_def IsAbs_def Let_def clean_step_def)

lemma Dir_rooted_path:
  assumes "\<forall>e\<in>set cs. plain e"
  shows "Dir (rooted_path cs) = rooted_path (butlast cs)"
proof (cases cs rule: rev_cases)
  case Nil
  then show ?thesis
    by (simp add: Dir_def rooted_path_def Clean_root)
next
  case (snoc xs x)
  with assms have x: "Separator \<notin> set x" and xs: "\<forall>e\<in>set xs. plain e"
    by (auto simp: plain_def)
  have "rev (dropWhile (\<lambda>c. c \<noteq> Separator) (rev (rooted_path cs)))
        = (if xs = [] then [] else rooted_path xs) @ [Separator]"
    unfolding snoc rooted_path_snoc using x by (rule through_last_sep)
  then show ?thesis
    using snoc xs by (simp add: Dir_def Clean_root Clean_trailing_sep rooted_path_Nil)
qed

lemma rooted_path_not_dot: "rooted_path cs \<noteq> ''.''"
  by (simp add: rooted_path_def dot_no_sep)

lemma IsAbs_rooted_path: "IsAbs (rooted_path cs)"
  by (simp add: rooted_path_def IsAbs_def)

lemma rel_elems_rooted_path:
  "\<forall>e\<in>set cs. plain e \<Longrightarrow> rel_elems (rooted_path cs) = [] # cs"
  by (cases "cs = []")
    (auto simp: rel_elems_def rooted_path_def split_sep_join_plain join_sep_plain_nonempty)

lemma rel_skip_shape:
  "rel_skip bs ts = (bs', ts') \<Longrightarrow>
   \<exists>c. bs = c @ bs' \<and> ts = c @ ts'"
proof (induction bs ts rule: rel_skip.induct)
  case (1 b bs t ts)
  show ?case
  proof (cases "b = t")
    case True
    with 1 obtain c where "bs = c @ bs'" "ts = c @ ts'" by auto
    with True have "b # bs = (b # c) @ bs' \<and> t # ts = (b # c) @ ts'" by simp
    then show ?thesis by blast
  next
    case False
    with 1 show ?thesis by auto
  qed
qed auto

lemma Rel_rooted_path:
  assumes bs: "\<forall>e\<in>set bs. plain e" and ts: "\<forall>e\<in>set ts. plain e"
  shows "\<exists>rel. Rel (rooted_path bs) (rooted_path ts) = Inr rel \<and>
           Clean (Join [rooted_path bs, rel]) = rooted_path ts"
proof (cases "rooted_path ts = rooted_path bs")
  case True
  have "split_sep (join_sep bs @ Separator # ''.'') = (if bs = [] then [[]] else bs) @ [''.'']"
    using bs by (simp add: split_sep_append split_sep_join_plain split_sep_single dot_no_sep)
  then have "Clean (rooted_path bs @ Separator # ''.'') = rooted_path bs"
    using bs unfolding rooted_path_def append_Cons Clean_abs
    by (simp add: clean_fold_plain clean_step_def rooted_path_def)
  then have "Clean (Join [rooted_path bs, ''.'']) = rooted_path bs"
    using bs by (simp add: Join_def rooted_path_def Clean_rooted_path [unfolded rooted_path_def])
  with True show ?thesis
    using bs ts by (simp add: Rel_def Clean_rooted_path)
next
  case False
  obtain bs' ts' where sk: "rel_skip bs ts = (bs', ts')" by (cases "rel_skip bs ts")
  then obtain c where c: "bs = c @ bs'" "ts = c @ ts'"
    using rel_skip_shape by blast
  from False c have ne: "bs' \<noteq> [] \<or> ts' \<noteq> []" by auto
  have hd: "bs' \<noteq> [] \<Longrightarrow> hd bs' \<noteq> ''..''"
    using bs c by (cases bs') (auto simp: plain_def)
  let ?up = "replicate (length bs') ''..''"
  let ?rel = "join_sep (?up @ ts')"
  have rel: "Rel (rooted_path bs) (rooted_path ts) = Inr ?rel"
    using False bs ts sk hd ne
    by (simp add: Rel_def Clean_rooted_path rel_elems_rooted_path Let_def
        rooted_path_not_dot IsAbs_rooted_path)
  have "\<forall>e\<in>set ts'. plain e"
    using ts unfolding c(2) by simp
  then have "\<forall>e\<in>set ts'. Separator \<notin> set e"
    by (simp add: plain_def)
  moreover have "Separator \<notin> set ''..''"
    by (simp add: dot_no_sep)
  ultimately have nosep: "\<forall>e\<in>set (?up @ ts'). Separator \<notin> set e"
    by (simp add: ball_Un)
  have "?up @ ts' \<noteq> []" using ne by auto
  then have sp: "split_sep ?rel = ?up @ ts'"
    using nosep by (rule split_sep_join)
  have "split_sep (join_sep bs @ Separator # ?rel) = (if bs = [] then [[]] else bs) @ ?up @ ts'"
    using bs sp by (simp add: split_sep_append split_sep_join_plain)
  moreover have "foldl (clean_step True) [] ((if bs = [] then [[]] else bs) @ ?up @ ts') = ts"
  proof -
    have 1: "foldl (clean_step True) [] (if bs = [] then [[]] else bs) = c @ bs'"
      using bs c by (auto simp: clean_fold_plain clean_step_def)
    have 2: "foldl (clean_step True) (c @ bs') ?up = c"
      using bs c by (intro clean_fold_dotdot) auto
    have 3: "foldl (clean_step True) c ts' = c @ ts'"
      using ts c by (intro clean_fold_plain) auto
    show ?thesis unfolding foldl_append 1 2 3 using c by simp
  qed
  ultimately have "Clean (rooted_path bs @ Separator # ?rel) = rooted_path ts"
    unfolding rooted_path_def append_Cons Clean_abs by (simp add: rooted_path_def)
  then have "Clean (Join [rooted_path bs, ?rel]) = rooted_path ts"
    using ts by (simp add: Join_def rooted_path_def Clean_rooted_path [unfolded rooted_path_def])
  with rel show ?thesis by blast
qed

lemma resolve_abs_abs:
  assumes "IsAbs link" and "IsAbs target"
  shows "\<exists>rel. resolveTargetRelativeToLink link target = Inr rel \<and>
           Clean (Join [Dir (Clean link), rel]) = Clean target"
proof -
  from assms(1) obtain ls where ls: "Clean link = rooted_path ls" "\<forall>e\<in>set ls. plain e"
    by (rule Clean_abs_plain)
  from assms(2) obtain ts where ts: "Clean target = rooted_path ts" "\<forall>e\<in>set ts. plain e"
    by (rule Clean_abs_plain)
  have d: "Dir (Clean link) = rooted_path (butlast ls)"
    using ls by (simp add: Dir_rooted_path)
  have "\<forall>e\<in>set (butlast ls). plain e"
    using ls(2) by (auto dest: in_set_butlastD)
  from Rel_rooted_path [OF this ts(2)] obtain rel where
    "Rel (rooted_path (butlast ls)) (rooted_path ts) = Inr rel"
    "Clean (Join [rooted_path (butlast ls), rel]) = rooted_path ts" by blast
  then show ?thesis
    using assms d ts(1) by (simp add: resolveTargetRelativeToLink_def Let_def)
qed


section \<open>The path resolver: claims\<close>

text \<open>
  Claim C4.  For every absolute link and every absolute target,
  \<open>resolveTargetRelativeToLink\<close> succeeds, and joining the directory of the cleaned link
  with the returned relative path and cleaning the result gives the cleaned target; for the
  link \<open>/a/b/link\<close> and the target \<open>/a/c/lib.so\<close> the result is \<open>../c/lib.so\<close>.
\<close>

theorem C4_resolver_correct:
  "(IsAbs link \<and> IsAbs target \<longrightarrow>
      (\<exists>rel. resolveTargetRelativeToLink link target = Inr rel \<and>
             Clean (Join [Dir (Clean link), rel]) = Clean target)) \<and>
   resolveTargetRelativeToLink ''/a/b/link'' ''/a/c/lib.so'' = Inr ''../c/lib.so''"
proof
  show "IsAbs link \<and> IsAbs target \<longrightarrow>
      (\<exists>rel. resolveTargetRelativeToLink link target = Inr rel \<and>
             Clean (Join [Dir (Clean link), rel]) = Clean target)"
    using resolve_abs_abs by blast
  show "resolveTargetRelativeToLink ''/a/b/link'' ''/a/c/lib.so'' = Inr ''../c/lib.so''"
    by code_simp
qed

theorem C4_resolver_correct_witness:
  "IsAbs ''/usr/lib/x/libfoo.so'' \<and> IsAbs ''/usr/lib/libfoo.so'' \<and>
   resolveTargetRelativeToLink ''/usr/lib/x/libfoo.so'' ''/usr/lib/libfoo.so'' = Inr ''../libfoo.so'' \<and>
   Clean (Join [Dir (Clean ''/usr/lib/x/libfoo.so''), ''../libfoo.so'']) = ''/usr/lib/libfoo.so''"
proof -
  have l: "IsAbs ''/usr/lib/x/libfoo.so''" and t: "IsAbs ''/usr/lib/libfoo.so''"
    by (simp_all add: IsAbs_def Separator_def)
  have r: "resolveTargetRelativeToLink ''/usr/lib/x/libfoo.so'' ''/usr/lib/libfoo.so'' = Inr ''../libfoo.so''"
    by code_simp
  have c: "Clean ''/usr/lib/libfoo.so'' = ''/usr/lib/libfoo.so''"
    by code_simp
  from C4_resolver_correct [of "''/usr/lib/x/libfoo.so''" "''/usr/lib/libfoo.so''"] l t
  obtain rel where
    "resolveTargetRelativeToLink ''/usr/lib/x/libfoo.so'' ''/usr/lib/libfoo.so'' = Inr rel"
    "Clean (Join [Dir (Clean ''/usr/lib/x/libfoo.so''), rel]) = Clean ''/usr/lib/libfoo.so''"
    by blast
  with r c l t show ?thesis by simp
qed

text \<open>
  Claim C5, as stated, fails.  The claim says that a target that is not absolute is
  returned unchanged whatever the link is.  The resolver tests the link first (line 67):
  with a link that is not absolute it fails, whatever the target is.
\<close>

theorem C5_relative_target_counterexample:
  "\<not> IsAbs ''lib.so'' \<and>
   resolveTargetRelativeToLink ''rel/path'' ''lib.so'' \<noteq> Inr ''lib.so''"
  by (simp add: resolveTargetRelativeToLink_def IsAbs_def Separator_def)

text \<open>
  Claim C5, as amended.  For every absolute link, a target that is not absolute is returned
  unchanged.
\<close>

theorem C5_relative_target_unchanged:
  "IsAbs link \<Longrightarrow> \<not> IsAbs target \<Longrightarrow> resolveTargetRelativeToLink link target = Inr target"
  by (simp add: resolveTargetRelativeToLink_def)

theorem C5_relative_target_unchanged_witness:
  "IsAbs ''/a/b/link'' \<and> \<not> IsAbs ''lib.so'' \<and>
   resolveTargetRelativeToLink ''/a/b/link'' ''lib.so'' = Inr ''lib.so''"
proof -
  have l: "IsAbs ''/a/b/link''" and t: "\<not> IsAbs ''lib.so''"
    by (simp_all add: IsAbs_def Separator_def)
  from C5_relative_target_unchanged [OF l t] l t show ?thesis by simp
qed

text \<open>
  Claim C6.  For every link that is not absolute and every target, absolute or not,
  \<open>resolveTargetRelativeToLink\<close> fails with the invalid-link error and returns no path.
\<close>

theorem C6_relative_link_rejected:
  "\<not> IsAbs link \<Longrightarrow> resolveTargetRelativeToLink link target = Inl (InvalidLink link target)"
  by (simp add: resolveTargetRelativeToLink_def)

theorem C6_relative_link_rejected_witness:
  "\<not> IsAbs ''rel/path'' \<and>
   resolveTargetRelativeToLink ''rel/path'' ''/usr/lib/libfoo.so''
     = Inl (InvalidLink ''rel/path'' ''/usr/lib/libfoo.so'') \<and>
   resolveTargetRelativeToLink ''rel/path'' ''lib.so'' = Inl (InvalidLink ''rel/path'' ''lib.so'')"
proof -
  have l: "\<not> IsAbs ''rel/path''"
    by (simp add: IsAbs_def Separator_def)
  from C6_relative_link_rejected [OF l, of "''/usr/lib/libfoo.so''"]
       C6_relative_link_rejected [OF l, of "''lib.so''"] l
  show ?thesis by simp
qed

section \<open>The symlink loop only adds directories and links\<close>

lemma extends_refl: "extends w w"
  by (simp add: extends_def)

lemma extends_cwd: "extends w w' \<Longrightarrow> cwd w' = cwd w"
  and extends_execs: "extends w w' \<Longrightarrow> execs w' = execs w"
  and extends_node: "extends w w' \<Longrightarrow> node_at w loc = Some n \<Longrightarrow> node_at w' loc = Some n"
  and extends_file: "extends w w' \<Longrightarrow> node_at w' loc = Some (File text) \<Longrightarrow> node_at w loc = Some (File text)"
  unfolding extends_def by blast+

lemma extends_trans:
  assumes a: "extends w w1" and b: "extends w1 w2"
  shows "extends w w2"
proof -
  have "cwd w2 = cwd w"
    using extends_cwd [OF a] extends_cwd [OF b] by (rule_tac trans)
  moreover have "execs w2 = execs w"
    using extends_execs [OF a] extends_execs [OF b] by (rule_tac trans)
  moreover have "\<forall>loc n. node_at w loc = Some n \<longrightarrow> node_at w2 loc = Some n"
    using extends_node [OF a] extends_node [OF b] by blast
  moreover have "\<forall>loc text. node_at w2 loc = Some (File text) \<longrightarrow> node_at w loc = Some (File text)"
    using extends_file [OF a] extends_file [OF b] by blast
  ultimately show ?thesis unfolding extends_def by blast
qed

lemma node_at_put_node:
  "node_at (put_node loc n w) loc' =
     (if loc' = [] then Some Directory else if loc' = loc then Some n else node_at w loc')"
  by (simp add: node_at_def put_node_def update_conv')

lemma put_node_fields: "cwd (put_node loc n w) = cwd w" "execs (put_node loc n w) = execs w"
  by (simp_all add: put_node_def)

lemma node_at_root: "node_at w [] = Some Directory"
  by (simp add: node_at_def)

lemma extends_put_node:
  "node_at w loc = None \<Longrightarrow> n = Directory \<or> (\<exists>t. n = Symlink t) \<Longrightarrow> extends w (put_node loc n w)"
  by (auto simp: extends_def node_at_put_node put_node_fields node_at_root)

lemma Mkdir_extends: "Mkdir name w = (r, w') \<Longrightarrow> extends w w'"
  by (auto simp: Mkdir_def extends_refl extends_put_node split: sum.splits if_splits)

lemma Symlink_os_extends: "Symlink_os t name w = (r, w') \<Longrightarrow> extends w w'"
  by (auto simp: Symlink_os_def extends_refl extends_put_node split: sum.splits if_splits)

lemma MkdirAll_extends: "MkdirAll path w = (r, w') \<Longrightarrow> extends w w'"
proof (induction path w arbitrary: r w' rule: MkdirAll.induct)
  case (1 path w)
  show ?case
  proof (cases "Stat w path")
    case (Inr n)
    with "1.prems" show ?thesis
      by (subst (asm) MkdirAll.simps) (auto simp: extends_refl split: if_splits)
  next
    case (Inl e)
    obtain r1 w1 where p: "(if parent_prefix path \<noteq> [] then MkdirAll (parent_prefix path) w else (None, w)) = (r1, w1)"
      by (cases "if parent_prefix path \<noteq> [] then MkdirAll (parent_prefix path) w else (None, w)")
    have e1: "extends w w1"
    proof (cases "parent_prefix path \<noteq> []")
      case True
      with p "1.IH" [OF Inl True] show ?thesis by simp
    next
      case False
      with p show ?thesis by (simp add: extends_refl)
    qed
    show ?thesis
    proof (cases r1)
      case (Some e1')
      with "1.prems" Inl p e1 show ?thesis
        by (subst (asm) MkdirAll.simps) simp
    next
      case None
      obtain r2 w2 where m: "Mkdir path w1 = (r2, w2)" by (cases "Mkdir path w1")
      then have "extends w1 w2" by (rule Mkdir_extends)
      with e1 have "extends w w2" by (rule extends_trans)
      moreover have "w' = w2"
        using "1.prems" Inl p None m
        by (subst (asm) MkdirAll.simps) (auto split: option.splits sum.splits node.splits)
      ultimately show ?thesis by simp
    qed
  qed
qed

lemma create_symlinks_extends:
  "create_symlinks root entries w = (r, w') \<Longrightarrow> extends w w'"
proof (induction entries arbitrary: w)
  case Nil
  then show ?case by (simp add: extends_refl)
next
  case (Cons e es)
  show ?case
  proof (cases "resolveTargetRelativeToLink (Link e) (Target e)")
    case (Inl err)
    with Cons.prems show ?thesis by (simp add: extends_refl)
  next
    case (Inr t)
    obtain r1 w1 where m: "MkdirAll (Dir (Join [root, Link e])) w = (r1, w1)"
      by (cases "MkdirAll (Dir (Join [root, Link e])) w")
    then have e1: "extends w w1" by (rule MkdirAll_extends)
    show ?thesis
    proof (cases r1)
      case (Some err)
      with Cons.prems Inr m e1 show ?thesis by simp
    next
      case None
      obtain r2 w2 where s: "Symlink_os t (Join [root, Link e]) w1 = (r2, w2)"
        by (cases "Symlink_os t (Join [root, Link e]) w1")
      then have "extends w1 w2" by (rule Symlink_os_extends)
      with e1 have e2: "extends w w2" by (rule extends_trans)
      show ?thesis
      proof (cases "\<exists>err. r2 = Some err \<and> \<not> is_ErrExist err")
        case True
        with Cons.prems Inr m None s e2 show ?thesis by auto
      next
        case False
        with Cons.prems Inr m None s have "create_symlinks root es w2 = (r, w')"
          by (cases r2) auto
        then have "extends w2 w'" by (rule Cons.IH)
        with e2 show ?thesis by (rule extends_trans)
      qed
    qed
  qed
qed

lemma create_symlinks_Cons:
  "create_symlinks root (e # rest) w =
     (case create_symlinks root [e] w of
        (Some err, w1) \<Rightarrow> (Some err, w1)
      | (None, w1) \<Rightarrow> create_symlinks root rest w1)"
proof (cases "resolveTargetRelativeToLink (Link e) (Target e)")
  case (Inl err)
  then show ?thesis by simp
next
  case (Inr t)
  obtain r1 w1 where m: "MkdirAll (Dir (Join [root, Link e])) w = (r1, w1)"
    by (cases "MkdirAll (Dir (Join [root, Link e])) w")
  show ?thesis
  proof (cases r1)
    case (Some err)
    with Inr m show ?thesis by simp
  next
    case None
    obtain r2 w2 where s: "Symlink_os t (Join [root, Link e]) w1 = (r2, w2)"
      by (cases "Symlink_os t (Join [root, Link e]) w1")
    show ?thesis
    proof (cases r2)
      case None
      with Inr m \<open>r1 = None\<close> s show ?thesis by simp
    next
      case (Some err)
      with Inr m \<open>r1 = None\<close> s show ?thesis by simp
    qed
  qed
qed

lemma create_symlinks_append:
  "create_symlinks root (pre @ post) w =
     (case create_symlinks root pre w of
        (Some err, w1) \<Rightarrow> (Some err, w1)
      | (None, w1) \<Rightarrow> create_symlinks root post w1)"
proof (induction pre arbitrary: w)
  case Nil
  then show ?case by simp
next
  case (Cons e es)
  obtain r1 w1 where s: "create_symlinks root [e] w = (r1, w1)"
    by (cases "create_symlinks root [e] w")
  have "create_symlinks root ((e # es) @ post) w =
        (case (r1, w1) of (Some err, w1) \<Rightarrow> (Some err, w1)
          | (None, w1) \<Rightarrow> create_symlinks root (es @ post) w1)"
    unfolding append_Cons by (subst create_symlinks_Cons) (simp only: s)
  moreover have "create_symlinks root (e # es) w =
        (case (r1, w1) of (Some err, w1) \<Rightarrow> (Some err, w1)
          | (None, w1) \<Rightarrow> create_symlinks root es w1)"
    by (subst create_symlinks_Cons) (simp only: s)
  ultimately show ?case
    by (cases r1) (simp_all add: Cons.IH)
qed

lemma create_symlinks_invalid_link:
  "\<not> IsAbs (Link bad) \<Longrightarrow>
   create_symlinks root (bad # post) w =
     (Some (FailedResolvingSymlink (InvalidLink (Link bad) (Target bad))), w)"
  by (simp add: resolveTargetRelativeToLink_def)


section \<open>Applying the hooks: claims\<close>

text \<open>
  Claim C1, as stated, fails.  The claim says that a plan with a symlink entry whose link is not
  absolute is rejected before any mutation, also when valid entries come before it.  The
  loop of lines 112 to 132 resolves, makes the directory and makes the link entry by
  entry: with the plan of \<open>/plans/bad.json\<close> the first entry has made \<open>/fs/usr/lib/x\<close> and
  the link in it when the second is rejected.
\<close>

theorem C1_counterexample:
  "load_hooks example_host ''/plans/bad.json'' example_world
     = Inr \<lparr>ContainerRootFS = [], LDCacheUpdates = [''/usr/lib/x''],
            Symlinks = [\<lparr>Target = ''/usr/lib/libfoo.so'', Link = ''/usr/lib/x/libfoo.so''\<rparr>,
                        \<lparr>Target = ''libbar.so'', Link = ''usr/lib/x/libbar.so''\<rparr>]\<rparr> \<and>
   \<not> IsAbs ''usr/lib/x/libbar.so'' \<and>
   fst (ApplyHooksToContainer example_host ''/plans/bad.json'' ''/fs'' example_world)
     = Some (FailedResolvingSymlink (InvalidLink ''usr/lib/x/libbar.so'' ''libbar.so'')) \<and>
   node_at example_world [''fs'', ''usr'', ''lib'', ''x''] = None \<and>
   node_at (snd (ApplyHooksToContainer example_host ''/plans/bad.json'' ''/fs'' example_world))
     [''fs'', ''usr'', ''lib'', ''x''] = Some Directory \<and>
   node_at example_world [''fs'', ''usr'', ''lib'', ''x'', ''libfoo.so''] = None \<and>
   node_at (snd (ApplyHooksToContainer example_host ''/plans/bad.json'' ''/fs'' example_world))
     [''fs'', ''usr'', ''lib'', ''x'', ''libfoo.so''] = Some (Symlink ''../libfoo.so'')"
  by code_simp


text \<open>
  Claim C1, as amended.  The call fails; the world it leaves is the one left by the loop over the
  entries before the offending one, so that the offending entry and those after it change
  nothing, and nothing at all is changed when the offending entry is the first; no command
  is run, no node is removed or changed and no regular file is made, so that the linker
  configuration and the cache are as they were.
\<close>

theorem C1_invalid_link_stops_the_loop:
  assumes "load_hooks h hooksFilePath w = Inr hooks"
    and "Symlinks hooks = pre @ bad # post"
    and "\<not> IsAbs (Link bad)"
    and "ApplyHooksToContainer h hooksFilePath containerRootFSMount w = (r, w')"
  shows "r \<noteq> None \<and>
         (r, w') = create_symlinks containerRootFSMount (pre @ [bad]) w \<and>
         w' = snd (create_symlinks containerRootFSMount pre w) \<and>
         (pre = [] \<longrightarrow> w' = w) \<and>
         execs w' = execs w \<and>
         (\<forall>loc n. node_at w loc = Some n \<longrightarrow> node_at w' loc = Some n) \<and>
         (\<forall>loc text. node_at w' loc = Some (File text) \<longrightarrow> node_at w loc = Some (File text))"
proof -
  obtain r1 w1 where p: "create_symlinks containerRootFSMount pre w = (r1, w1)"
    by (cases "create_symlinks containerRootFSMount pre w")
  have b: "\<And>rest. create_symlinks containerRootFSMount (bad # rest) w1 =
     (Some (FailedResolvingSymlink (InvalidLink (Link bad) (Target bad))), w1)"
    using assms(3) by (rule create_symlinks_invalid_link)
  have all: "\<And>rest. create_symlinks containerRootFSMount (pre @ bad # rest) w =
     (if r1 = None then Some (FailedResolvingSymlink (InvalidLink (Link bad) (Target bad))) else r1, w1)"
    unfolding create_symlinks_append p
    by (cases r1) (simp_all del: create_symlinks.simps add: b)
  have res: "(r, w') =
     (if r1 = None then Some (FailedResolvingSymlink (InvalidLink (Link bad) (Target bad))) else r1, w1)"
  proof -
    have "ApplyHooksToContainer h hooksFilePath containerRootFSMount w =
      (case create_symlinks containerRootFSMount (pre @ bad # post) w of
         (Some err, w1) \<Rightarrow> (Some err, w1)
       | (None, w1) \<Rightarrow>
           if length (LDCacheUpdates hooks) > 0 then
             (case merge_linker_conf containerRootFSMount (LDCacheUpdates hooks) w1 of
                (Some err, w2) \<Rightarrow> (Some err, w2)
              | (None, w2) \<Rightarrow> regenerate_linker_cache h containerRootFSMount w2)
           else (None, w1))"
      by (simp only: ApplyHooksToContainer_def assms(1) assms(2) sum.case)
    then show ?thesis
      unfolding all [of post] assms(4) by (cases r1) simp_all
  qed
  then have r: "r \<noteq> None" by (cases r1) simp_all
  from res have w: "w' = w1" by simp
  have short: "(r, w') = create_symlinks containerRootFSMount (pre @ [bad]) w"
    unfolding res all [of "[]"] ..
  have "extends w w1" using p by (rule create_symlinks_extends)
  with w have e: "extends w w'" by simp
  have first: "pre = [] \<longrightarrow> w' = w" using p w by auto
  have snd: "w' = snd (create_symlinks containerRootFSMount pre w)"
    using p w by simp
  have x: "execs w' = execs w" using e by (rule extends_execs)
  have k: "\<forall>loc n. node_at w loc = Some n \<longrightarrow> node_at w' loc = Some n"
    using extends_node [OF e] by blast
  have f: "\<forall>loc text. node_at w' loc = Some (File text) \<longrightarrow> node_at w loc = Some (File text)"
    using extends_file [OF e] by blast
  from r short snd first x k f show ?thesis by blast
qed

theorem C1_invalid_link_stops_the_loop_witness:
  "load_hooks example_host ''/plans/bad.json'' example_world
     = Inr \<lparr>ContainerRootFS = [], LDCacheUpdates = [''/usr/lib/x''],
            Symlinks = [\<lparr>Target = ''/usr/lib/libfoo.so'', Link = ''/usr/lib/x/libfoo.so''\<rparr>] @
                        \<lparr>Target = ''libbar.so'', Link = ''usr/lib/x/libbar.so''\<rparr> # []\<rparr> \<and>
   \<not> IsAbs (Link \<lparr>Target = ''libbar.so'', Link = ''usr/lib/x/libbar.so''\<rparr>) \<and>
   fst (ApplyHooksToContainer example_host ''/plans/bad.json'' ''/fs'' example_world) \<noteq> None \<and>
   snd (ApplyHooksToContainer example_host ''/plans/bad.json'' ''/fs'' example_world)
     = snd (create_symlinks ''/fs''
              [\<lparr>Target = ''/usr/lib/libfoo.so'', Link = ''/usr/lib/x/libfoo.so''\<rparr>] example_world) \<and>
   execs (snd (ApplyHooksToContainer example_host ''/plans/bad.json'' ''/fs'' example_world)) = [] \<and>
   node_at (snd (ApplyHooksToContainer example_host ''/plans/bad.json'' ''/fs'' example_world))
     [''fs'', ''etc'', ''ld.so.conf.d'', ''00-lxdcdi.conf''] = Some (File (''/opt/a/lib'' @ [CHR 0x0A]))"
proof -
  let ?res = "ApplyHooksToContainer example_host ''/plans/bad.json'' ''/fs'' example_world"
  let ?hooks = "\<lparr>ContainerRootFS = [], LDCacheUpdates = [''/usr/lib/x''],
            Symlinks = [\<lparr>Target = ''/usr/lib/libfoo.so'', Link = ''/usr/lib/x/libfoo.so''\<rparr>] @
                        \<lparr>Target = ''libbar.so'', Link = ''usr/lib/x/libbar.so''\<rparr> # []\<rparr>"
  have l: "load_hooks example_host ''/plans/bad.json'' example_world = Inr ?hooks"
    by code_simp
  have s: "Symlinks ?hooks = [\<lparr>Target = ''/usr/lib/libfoo.so'', Link = ''/usr/lib/x/libfoo.so''\<rparr>] @
                        \<lparr>Target = ''libbar.so'', Link = ''usr/lib/x/libbar.so''\<rparr> # []"
    by simp
  have b: "\<not> IsAbs (Link \<lparr>Target = ''libbar.so'', Link = ''usr/lib/x/libbar.so''\<rparr>)"
    by (simp add: IsAbs_def Separator_def)
  have a: "?res = (fst ?res, snd ?res)" by simp
  have e: "execs example_world = []" by (simp add: example_world_def)
  have f: "node_at example_world [''fs'', ''etc'', ''ld.so.conf.d'', ''00-lxdcdi.conf'']
             = Some (File (''/opt/a/lib'' @ [CHR 0x0A]))"
    by code_simp
  note t = C1_invalid_link_stops_the_loop [OF l s b a]
  from t have 1: "fst ?res \<noteq> None" by blast
  from t have 2: "snd ?res = snd (create_symlinks ''/fs''
              [\<lparr>Target = ''/usr/lib/libfoo.so'', Link = ''/usr/lib/x/libfoo.so''\<rparr>] example_world)"
    by blast
  from t have x: "execs (snd ?res) = execs example_world" by blast
  from t have k: "\<And>loc n. node_at example_world loc = Some n \<Longrightarrow> node_at (snd ?res) loc = Some n"
    by blast
  show ?thesis
    using l b 1 2 trans [OF x e] k [OF f] by blast
qed

text \<open>
  Claim C7, as stated, fails.  The claim says that with an empty list of updates the
  configuration file under \<open>etc/ld.so.conf.d\<close> is neither created nor modified.  The loop
  over the symlinks (lines 112 to 132) runs before the test of line 136, whatever the
  updates are: a plan without updates whose symlink entry has the link
  \<open>/etc/ld.so.conf.d/00-lxdcdi.conf\<close> makes the directory and a symbolic link at the path
  of the configuration file, where there was nothing.
\<close>

theorem C7_counterexample:
  "load_hooks example_host ''/plans/conflink.json'' fresh_world
     = Inr \<lparr>ContainerRootFS = [], LDCacheUpdates = [],
            Symlinks = [\<lparr>Target = ''/opt/conf'', Link = ''/etc/ld.so.conf.d/00-lxdcdi.conf''\<rparr>]\<rparr> \<and>
   Lstat fresh_world (ldConfFilePath ''/fs'') = Inl ENOENT \<and>
   fst (ApplyHooksToContainer example_host ''/plans/conflink.json'' ''/fs'' fresh_world) = None \<and>
   Lstat (snd (ApplyHooksToContainer example_host ''/plans/conflink.json'' ''/fs'' fresh_world))
     (ldConfFilePath ''/fs'') = Inr (Symlink ''../../opt/conf'') \<and>
   node_at (snd (ApplyHooksToContainer example_host ''/plans/conflink.json'' ''/fs'' fresh_world))
     [''fs'', ''etc'', ''ld.so.conf.d'', ''00-lxdcdi.conf''] = Some (Symlink ''../../opt/conf'')"
  by code_simp

text \<open>
  Claim C7, as amended.  With an empty list of updates the merge of the linker
  configuration and the regeneration of the cache are skipped: the call does what the loop
  over the symlinks does and nothing else; no command is run (\<open>ldconfig\<close> is not), every
  node that was there is still there, unchanged (the cache is not removed, an existing
  configuration file is not modified), and no regular file is made.  The directories and
  the symbolic links that the loop makes for the entries of the plan are not excluded,
  also not at the path of the configuration file.
\<close>

theorem C7_no_updates_skips_linker:
  assumes "load_hooks h hooksFilePath w = Inr hooks"
    and "LDCacheUpdates hooks = []"
    and "ApplyHooksToContainer h hooksFilePath containerRootFSMount w = (r, w')"
  shows "(r, w') = create_symlinks containerRootFSMount (Symlinks hooks) w \<and>
         execs w' = execs w \<and>
         (\<forall>loc n. node_at w loc = Some n \<longrightarrow> node_at w' loc = Some n) \<and>
         (\<forall>loc text. node_at w' loc = Some (File text) \<longrightarrow> node_at w loc = Some (File text))"
proof -
  have eq: "(r, w') = create_symlinks containerRootFSMount (Symlinks hooks) w"
    using assms by (cases "create_symlinks containerRootFSMount (Symlinks hooks) w")
      (auto simp: ApplyHooksToContainer_def split: option.splits)
  then have "extends w w'"
    by (metis create_symlinks_extends)
  with eq show ?thesis
    using extends_execs extends_node extends_file by blast
qed

theorem C7_no_updates_skips_linker_witness:
  "load_hooks example_host ''/plans/links.json'' example_world
     = Inr \<lparr>ContainerRootFS = [], LDCacheUpdates = [],
            Symlinks = [\<lparr>Target = ''/usr/lib/libfoo.so'', Link = ''/usr/lib/x/libfoo.so''\<rparr>]\<rparr> \<and>
   fst (ApplyHooksToContainer example_host ''/plans/links.json'' ''/fs'' example_world) = None \<and>
   execs (snd (ApplyHooksToContainer example_host ''/plans/links.json'' ''/fs'' example_world)) = [] \<and>
   node_at (snd (ApplyHooksToContainer example_host ''/plans/links.json'' ''/fs'' example_world))
     [''fs'', ''etc'', ''ld.so.cache''] = Some (File ''cache'') \<and>
   node_at (snd (ApplyHooksToContainer example_host ''/plans/links.json'' ''/fs'' example_world))
     [''fs'', ''etc'', ''ld.so.conf.d'', ''00-lxdcdi.conf''] = Some (File (''/opt/a/lib'' @ [CHR 0x0A])) \<and>
   node_at (snd (ApplyHooksToContainer example_host ''/plans/links.json'' ''/fs'' example_world))
     [''fs'', ''usr'', ''lib'', ''x'', ''libfoo.so''] = Some (Symlink ''../libfoo.so'')"
proof -
  let ?res = "ApplyHooksToContainer example_host ''/plans/links.json'' ''/fs'' example_world"
  have l: "load_hooks example_host ''/plans/links.json'' example_world
     = Inr \<lparr>ContainerRootFS = [], LDCacheUpdates = [],
            Symlinks = [\<lparr>Target = ''/usr/lib/libfoo.so'', Link = ''/usr/lib/x/libfoo.so''\<rparr>]\<rparr>"
    by code_simp
  have u: "LDCacheUpdates \<lparr>ContainerRootFS = [], LDCacheUpdates = [],
            Symlinks = [\<lparr>Target = ''/usr/lib/libfoo.so'', Link = ''/usr/lib/x/libfoo.so''\<rparr>]\<rparr> = []"
    by simp
  have a: "?res = (fst ?res, snd ?res)" by simp
  have r: "fst ?res = None" by code_simp
  have s: "node_at (snd ?res) [''fs'', ''usr'', ''lib'', ''x'', ''libfoo.so''] = Some (Symlink ''../libfoo.so'')"
    by code_simp
  have e: "execs example_world = []" by (simp add: example_world_def)
  have c: "node_at example_world [''fs'', ''etc'', ''ld.so.cache''] = Some (File ''cache'')"
    by code_simp
  have f: "node_at example_world [''fs'', ''etc'', ''ld.so.conf.d'', ''00-lxdcdi.conf'']
             = Some (File (''/opt/a/lib'' @ [CHR 0x0A]))"
    by code_simp
  note t = C7_no_updates_skips_linker [OF l u a]
  from t have x: "execs (snd ?res) = execs example_world" by blast
  from t have k: "\<And>loc n. node_at example_world loc = Some n \<Longrightarrow> node_at (snd ?res) loc = Some n"
    by blast
  show ?thesis
    using l r s trans [OF x e] k [OF c] k [OF f] by blast
qed



text \<open>
  Claim C10.  A plan that decodes to no symlinks and no updates, as the JSON object \<open>{}\<close>
  does, makes the call succeed and leave the world as it is: no directory, no link, no
  file, no removal, no command.
\<close>

theorem C10_empty_plan_no_effect:
  "load_hooks h hooksFilePath w = Inr hooks \<Longrightarrow> Symlinks hooks = [] \<Longrightarrow>
   LDCacheUpdates hooks = [] \<Longrightarrow>
   ApplyHooksToContainer h hooksFilePath containerRootFSMount w = (None, w)"
  by (simp add: ApplyHooksToContainer_def)

theorem C10_empty_plan_no_effect_witness:
  "load_hooks example_host ''/plans/empty.json'' example_world
     = Inr \<lparr>ContainerRootFS = [], LDCacheUpdates = [], Symlinks = []\<rparr> \<and>
   ApplyHooksToContainer example_host ''/plans/empty.json'' ''/fs'' example_world
     = (None, example_world)"
proof -
  have l: "load_hooks example_host ''/plans/empty.json'' example_world
     = Inr \<lparr>ContainerRootFS = [], LDCacheUpdates = [], Symlinks = []\<rparr>"
    by code_simp
  from C10_empty_plan_no_effect [OF l, of "''/fs''"] l show ?thesis by simp
qed

section \<open>Decoding the plan\<close>

lemma key_is_distinct: "key_is a name \<Longrightarrow> key_is b name \<Longrightarrow> a = b"
  by (simp add: key_is_def)

lemma decode_string_shape:
  "decode_string v old = (if string_or_null v then Inr (case v of JString s \<Rightarrow> s | _ \<Rightarrow> old)
                          else Inl UnmarshalTypeError)"
  by (cases v) (simp_all add: string_or_null_def)

lemma decode_members_shape:
  assumes "\<And>x m. m \<in> set ms \<Longrightarrow> (\<exists>y. f x m = Inr y) = ok m"
    and "\<And>x m e. f x m = Inl e \<Longrightarrow> e = UnmarshalTypeError"
  shows "(\<exists>y. decode_members f x ms = Inr y) = list_all ok ms \<and>
         (\<forall>e. decode_members f x ms = Inl e \<longrightarrow> e = UnmarshalTypeError)"
  using assms(1)
proof (induction ms arbitrary: x)
  case Nil
  then show ?case by simp
next
  case (Cons m ms)
  show ?case
  proof (cases "f x m")
    case (Inl e)
    with Cons.prems [of m x] assms(2) [of x m e] show ?thesis by auto
  next
    case (Inr y)
    with Cons.prems [of m x] have "ok m" by auto
    moreover have "(\<exists>z. decode_members f y ms = Inr z) = list_all ok ms \<and>
         (\<forall>e. decode_members f y ms = Inl e \<longrightarrow> e = UnmarshalTypeError)"
      by (rule Cons.IH) (simp add: Cons.prems)
    ultimately show ?thesis using Inr by simp
  qed
qed

lemma SymlinkEntry_member_ok:
  "(\<exists>y. SymlinkEntry_member x (name, v) = Inr y) =
     ((key_is ''target'' name \<or> key_is ''link'' name) \<longrightarrow> string_or_null v)"
  by (auto simp: SymlinkEntry_member_def decode_string_shape)

lemma SymlinkEntry_member_err:
  "SymlinkEntry_member x m = Inl e \<Longrightarrow> e = UnmarshalTypeError"
  by (cases m) (auto simp: SymlinkEntry_member_def decode_string_shape split: if_splits)

lemma decode_SymlinkEntry_shape:
  "(\<exists>y. decode_SymlinkEntry j old = Inr y) = entry_shape j \<and>
   (\<forall>e. decode_SymlinkEntry j old = Inl e \<longrightarrow> e = UnmarshalTypeError)"
proof (cases j)
  case (JObject ms)
  have "(\<exists>y. decode_members SymlinkEntry_member old ms = Inr y) =
          list_all (\<lambda>(name, v). (key_is ''target'' name \<or> key_is ''link'' name) \<longrightarrow> string_or_null v) ms \<and>
        (\<forall>e. decode_members SymlinkEntry_member old ms = Inl e \<longrightarrow> e = UnmarshalTypeError)"
  proof (rule decode_members_shape)
    fix x m
    show "(\<exists>y. SymlinkEntry_member x m = Inr y) =
          (case m of (name, v) \<Rightarrow> (key_is ''target'' name \<or> key_is ''link'' name) \<longrightarrow> string_or_null v)"
      by (cases m) (simp add: SymlinkEntry_member_ok)
  qed (rule SymlinkEntry_member_err)
  with JObject show ?thesis by (simp add: entry_shape_def)
qed (simp_all add: entry_shape_def)

lemma decode_list_ok:
  assumes "\<And>j x. j \<in> set js \<Longrightarrow> (\<exists>y. dec j x = Inr y) = ok j"
    and "\<And>j x e. dec j x = Inl e \<Longrightarrow> e = UnmarshalTypeError"
  shows "(\<exists>ys. decode_list dec zero js old = Inr ys) = list_all ok js \<and>
         (\<forall>e. decode_list dec zero js old = Inl e \<longrightarrow> e = UnmarshalTypeError)"
  using assms(1)
proof (induction js arbitrary: old)
  case Nil
  then show ?case by simp
next
  case (Cons j js)
  let ?x = "case old of [] \<Rightarrow> zero | x # _ \<Rightarrow> x"
  have ih: "(\<exists>ys. decode_list dec zero js (tl old) = Inr ys) = list_all ok js \<and>
         (\<forall>e. decode_list dec zero js (tl old) = Inl e \<longrightarrow> e = UnmarshalTypeError)"
    by (rule Cons.IH) (simp add: Cons.prems)
  show ?case
  proof (cases "dec j ?x")
    case (Inl e)
    with Cons.prems [of j ?x] assms(2) [of j ?x e] show ?thesis by auto
  next
    case (Inr y)
    with Cons.prems [of j ?x] have "ok j" by auto
    with Inr ih show ?thesis by (cases "decode_list dec zero js (tl old)") auto
  qed
qed

lemma decode_slice_shape:
  assumes "\<And>j x. (\<exists>y. dec j x = Inr y) = ok j"
    and "\<And>j x e. dec j x = Inl e \<Longrightarrow> e = UnmarshalTypeError"
  shows "(\<exists>y. decode_slice dec zero v old = Inr y) = array_of ok v \<and>
         (\<forall>e. decode_slice dec zero v old = Inl e \<longrightarrow> e = UnmarshalTypeError)"
proof (cases v)
  case (JArray js)
  have "(\<exists>ys. decode_list dec zero js old = Inr ys) = list_all ok js \<and>
        (\<forall>e. decode_list dec zero js old = Inl e \<longrightarrow> e = UnmarshalTypeError)"
    by (rule decode_list_ok) (simp_all add: assms)
  with JArray show ?thesis
    by (cases "decode_list dec zero js old") (auto simp: decode_slice_def array_of_def)
qed (simp_all add: decode_slice_def array_of_def)

lemma decode_strings_shape:
  "(\<exists>y. decode_strings v old = Inr y) = array_of string_or_null v \<and>
   (\<forall>e. decode_strings v old = Inl e \<longrightarrow> e = UnmarshalTypeError)"
  unfolding decode_strings_def
  by (rule decode_slice_shape) (auto simp: decode_string_shape split: if_splits)

lemma decode_SymlinkEntries_shape:
  "(\<exists>y. decode_SymlinkEntries v old = Inr y) = array_of entry_shape v \<and>
   (\<forall>e. decode_SymlinkEntries v old = Inl e \<longrightarrow> e = UnmarshalTypeError)"
  unfolding decode_SymlinkEntries_def
  by (rule decode_slice_shape) (simp_all add: decode_SymlinkEntry_shape)

lemma Hooks_member_ok:
  "(\<exists>y. Hooks_member x (name, v) = Inr y) =
     ((key_is ''container_rootfs'' name \<longrightarrow> string_or_null v) \<and>
      (key_is ''ld_cache_updates'' name \<longrightarrow> array_of string_or_null v) \<and>
      (key_is ''symlinks'' name \<longrightarrow> array_of entry_shape v))"
proof -
  have s: "(\<exists>y. decode_SymlinkEntries v (Symlinks_array x) = Inr y) = array_of entry_shape v"
    using decode_SymlinkEntries_shape by blast
  have u: "(\<exists>y. decode_strings v (LDCacheUpdates_array x) = Inr y) = array_of string_or_null v"
    using decode_strings_shape by blast
  consider "key_is ''container_rootfs'' name" | "key_is ''ld_cache_updates'' name"
    | "key_is ''symlinks'' name"
    | "\<not> key_is ''container_rootfs'' name" "\<not> key_is ''ld_cache_updates'' name" "\<not> key_is ''symlinks'' name"
    by blast
  then show ?thesis
  proof cases
    case 1
    then have "\<not> key_is ''ld_cache_updates'' name" "\<not> key_is ''symlinks'' name"
      by (auto dest: key_is_distinct)
    with 1 show ?thesis by (simp add: Hooks_member_def decode_string_shape)
  next
    case 2
    then have "\<not> key_is ''container_rootfs'' name" "\<not> key_is ''symlinks'' name"
      by (auto dest: key_is_distinct)
    with 2 u show ?thesis
      by (cases "decode_strings v (LDCacheUpdates_array x)") (auto simp: Hooks_member_def)
  next
    case 3
    then have "\<not> key_is ''container_rootfs'' name" "\<not> key_is ''ld_cache_updates'' name"
      by (auto dest: key_is_distinct)
    with 3 s show ?thesis
      by (cases "decode_SymlinkEntries v (Symlinks_array x)") (auto simp: Hooks_member_def)
  next
    case 4
    then show ?thesis by (simp add: Hooks_member_def)
  qed
qed

lemma Hooks_member_err: "Hooks_member x m = Inl e \<Longrightarrow> e = UnmarshalTypeError"
proof (cases m)
  case (Pair name v)
  assume "Hooks_member x m = Inl e"
  with Pair decode_SymlinkEntries_shape [of v "Symlinks_array x"]
    decode_strings_shape [of v "LDCacheUpdates_array x"] show ?thesis
    by (auto simp: Hooks_member_def decode_string_shape split: if_splits sum.splits)
qed

lemma decode_Hooks_shape:
  "(\<exists>hooks. decode_Hooks doc = Inr hooks) = plan_shape doc \<and>
   (\<forall>e. decode_Hooks doc = Inl e \<longrightarrow> e = UnmarshalTypeError)"
proof (cases doc)
  case (JObject ms)
  let ?zero = "\<lparr>decoded = \<lparr>ContainerRootFS = [], LDCacheUpdates = [], Symlinks = []\<rparr>,
               LDCacheUpdates_array = [], Symlinks_array = []\<rparr>"
  have "(\<exists>y. decode_members Hooks_member ?zero ms = Inr y) =
          list_all (\<lambda>(name, v).
            (key_is ''container_rootfs'' name \<longrightarrow> string_or_null v) \<and>
            (key_is ''ld_cache_updates'' name \<longrightarrow> array_of string_or_null v) \<and>
            (key_is ''symlinks'' name \<longrightarrow> array_of entry_shape v)) ms \<and>
        (\<forall>e. decode_members Hooks_member ?zero ms = Inl e \<longrightarrow> e = UnmarshalTypeError)"
  proof (rule decode_members_shape)
    fix x :: decoding and m
    show "(\<exists>y. Hooks_member x m = Inr y) =
          (case m of (name, v) \<Rightarrow>
            (key_is ''container_rootfs'' name \<longrightarrow> string_or_null v) \<and>
            (key_is ''ld_cache_updates'' name \<longrightarrow> array_of string_or_null v) \<and>
            (key_is ''symlinks'' name \<longrightarrow> array_of entry_shape v))"
      by (cases m) (simp only: Hooks_member_ok prod.case)
  qed (rule Hooks_member_err)
  with JObject show ?thesis
    by (cases "decode_members Hooks_member ?zero ms") (auto simp: plan_shape_def)
qed (simp_all add: plan_shape_def)

lemma decode_members_lacking:
  assumes "decode_members f x ms = Inr y"
    and "\<And>x m y. m \<in> set ms \<Longrightarrow> f x m = Inr y \<Longrightarrow> g y = g x"
  shows "g y = g x"
  using assms
proof (induction ms arbitrary: x)
  case Nil
  then show ?case by simp
next
  case (Cons m ms)
  from Cons.prems(1) obtain x' where 1: "f x m = Inr x'" and 2: "decode_members f x' ms = Inr y"
    by (auto split: sum.splits)
  have "g y = g x'" using 2 by (rule Cons.IH) (auto intro: Cons.prems(2))
  moreover have "g x' = g x" using 1 by (auto intro: Cons.prems(2))
  ultimately show ?case by simp
qed

lemma Hooks_member_keeps:
  "Hooks_member x (name, v) = Inr y \<Longrightarrow>
   (\<not> key_is ''symlinks'' name \<longrightarrow> Symlinks (decoded y) = Symlinks (decoded x)) \<and>
   (\<not> key_is ''ld_cache_updates'' name \<longrightarrow> LDCacheUpdates (decoded y) = LDCacheUpdates (decoded x))"
  by (auto simp: Hooks_member_def split: if_splits sum.splits prod.splits)

lemma decode_Hooks_lacking:
  assumes "decode_Hooks doc = Inr hooks"
  shows "(lacks ''symlinks'' doc \<longrightarrow> Symlinks hooks = []) \<and>
         (lacks ''ld_cache_updates'' doc \<longrightarrow> LDCacheUpdates hooks = [])"
proof (cases doc)
  case (JObject ms)
  let ?zero = "\<lparr>decoded = \<lparr>ContainerRootFS = [], LDCacheUpdates = [], Symlinks = []\<rparr>,
               LDCacheUpdates_array = [], Symlinks_array = []\<rparr>"
  from assms JObject obtain d where d: "decode_members Hooks_member ?zero ms = Inr d"
    and h: "hooks = decoded d"
    by (auto split: sum.splits)
  have "Symlinks (decoded d) = Symlinks (decoded ?zero)" if "lacks ''symlinks'' doc"
    using d
  proof (rule decode_members_lacking [where g = "\<lambda>d. Symlinks (decoded d)"])
    fix x m y assume "m \<in> set ms" "Hooks_member x m = Inr y"
    with that JObject show "Symlinks (decoded y) = Symlinks (decoded x)"
      by (cases m) (auto simp: lacks_def list_all_iff dest: Hooks_member_keeps)
  qed
  moreover have "LDCacheUpdates (decoded d) = LDCacheUpdates (decoded ?zero)"
    if "lacks ''ld_cache_updates'' doc"
    using d
  proof (rule decode_members_lacking [where g = "\<lambda>d. LDCacheUpdates (decoded d)"])
    fix x m y assume "m \<in> set ms" "Hooks_member x m = Inr y"
    with that JObject show "LDCacheUpdates (decoded y) = LDCacheUpdates (decoded x)"
      by (cases m) (auto simp: lacks_def list_all_iff dest: Hooks_member_keeps)
  qed
  ultimately show ?thesis using h by simp
next
  case JNull
  with assms show ?thesis by auto
qed (use assms in simp_all)

section \<open>Decoding the plan: claims\<close>

text \<open>
  Claim C3, as stated, fails.  The claim counts an input without the \<open>symlinks\<close> or the
  \<open>ld_cache_updates\<close> field as malformed and says that loading it fails.  The decoder of
  lines 105 to 109 leaves a field without a member at its zero value: the text \<open>{}\<close> loads.
\<close>

theorem C3_counterexample:
  \<open>node_at example_world [''plans'', ''empty.json''] = Some (File ''{}'') \<and>
   json_parse example_host ''{}'' = Some (JObject []) \<and>
   lacks ''symlinks'' (JObject []) \<and> lacks ''ld_cache_updates'' (JObject []) \<and>
   load_hooks example_host ''/plans/empty.json'' example_world
     = Inr \<lparr>ContainerRootFS = [], LDCacheUpdates = [], Symlinks = []\<rparr>\<close>
  by code_simp


text \<open>
  Claim C3, as amended.  Decoding the document read from the plan file fails with a type
  error exactly when the document has not the shape of a plan, that is when its top-level
  value, or a member that names a field of the plan, has the wrong type; a document that
  has the shape decodes, and a list it has no member for is empty.  When the file can be
  read and the reader gives the document, loading fails with that decode error or returns
  the decoded plan: never a plan together with an error.
\<close>

theorem C3_decode_errors:
  "(decode_Hooks doc = Inl UnmarshalTypeError) = (\<not> plan_shape doc) \<and>
   (plan_shape doc \<longrightarrow>
      (\<exists>hooks. decode_Hooks doc = Inr hooks \<and>
         (lacks ''symlinks'' doc \<longrightarrow> Symlinks hooks = []) \<and>
         (lacks ''ld_cache_updates'' doc \<longrightarrow> LDCacheUpdates hooks = []))) \<and>
   (OpenFile hooksFilePath [O_RDONLY] w = (Inr hookFile, w1) \<and>
    read_all hookFile w1 = Inr text \<and> json_parse h text = Some doc \<longrightarrow>
      (\<not> plan_shape doc \<longrightarrow>
         load_hooks h hooksFilePath w = Inl (FailedDecodingHooksFile (Inr UnmarshalTypeError))) \<and>
      (\<forall>hooks. decode_Hooks doc = Inr hooks \<longrightarrow> load_hooks h hooksFilePath w = Inr hooks))"
proof -
  have bad: "decode_Hooks doc = Inl UnmarshalTypeError" if "\<not> plan_shape doc"
    using that decode_Hooks_shape [of doc] by (cases "decode_Hooks doc") auto
  have good: "\<exists>hooks. decode_Hooks doc = Inr hooks \<and>
         (lacks ''symlinks'' doc \<longrightarrow> Symlinks hooks = []) \<and>
         (lacks ''ld_cache_updates'' doc \<longrightarrow> LDCacheUpdates hooks = [])" if "plan_shape doc"
  proof -
    from that decode_Hooks_shape [of doc] obtain hooks where d: "decode_Hooks doc = Inr hooks"
      by blast
    with decode_Hooks_lacking [OF d] show ?thesis by blast
  qed
  have 1: "(decode_Hooks doc = Inl UnmarshalTypeError) = (\<not> plan_shape doc)"
    using bad good by (cases "plan_shape doc") auto
  have 3: "(\<not> plan_shape doc \<longrightarrow>
         load_hooks h hooksFilePath w = Inl (FailedDecodingHooksFile (Inr UnmarshalTypeError))) \<and>
      (\<forall>hooks. decode_Hooks doc = Inr hooks \<longrightarrow> load_hooks h hooksFilePath w = Inr hooks)"
    if "OpenFile hooksFilePath [O_RDONLY] w = (Inr hookFile, w1) \<and>
        read_all hookFile w1 = Inr text \<and> json_parse h text = Some doc"
    using that bad by (auto simp: load_hooks_def)
  from 1 good 3 show ?thesis by blast
qed

theorem C3_decode_errors_witness:
  \<open>\<not> plan_shape (JObject [(''symlinks'', JString ''none'')]) \<and>
   load_hooks example_host ''/plans/wrong.json'' example_world
     = Inl (FailedDecodingHooksFile (Inr UnmarshalTypeError)) \<and>
   \<not> plan_shape (JObject [([CHR 0xC5, CHR 0xBF] @ ''ymlinks'', JNumber ''5'')]) \<and>
   load_hooks example_host ''/plans/folded.json'' example_world
     = Inl (FailedDecodingHooksFile (Inr UnmarshalTypeError)) \<and>
   plan_shape (JObject []) \<and> lacks ''symlinks'' (JObject []) \<and>
   lacks ''ld_cache_updates'' (JObject []) \<and>
   (\<exists>hooks. decode_Hooks (JObject []) = Inr hooks \<and>
      load_hooks example_host ''/plans/empty.json'' example_world = Inr hooks \<and>
      Symlinks hooks = [] \<and> LDCacheUpdates hooks = [])\<close>
proof -
  let ?wrong = "JObject [(''symlinks'', JString ''none'')]"
  let ?folded = "JObject [([CHR 0xC5, CHR 0xBF] @ ''ymlinks'', JNumber ''5'')]"
  have o2: "OpenFile ''/plans/wrong.json'' [O_RDONLY] example_world
    = (Inr \<lparr>h_loc = [''plans'', ''wrong.json''], h_pos = 0, h_append = False\<rparr>, example_world)"
    by code_simp
  have r2: \<open>read_all \<lparr>h_loc = [''plans'', ''wrong.json''], h_pos = 0, h_append = False\<rparr> example_world
    = Inr ''{"symlinks":"none"}''\<close>
    by code_simp
  have p2: \<open>json_parse example_host ''{"symlinks":"none"}'' = Some ?wrong\<close>
    by code_simp
  have s2: "\<not> plan_shape ?wrong"
    by code_simp
  have o4: "OpenFile ''/plans/folded.json'' [O_RDONLY] example_world
    = (Inr \<lparr>h_loc = [''plans'', ''folded.json''], h_pos = 0, h_append = False\<rparr>, example_world)"
    by code_simp
  have r4: \<open>read_all \<lparr>h_loc = [''plans'', ''folded.json''], h_pos = 0, h_append = False\<rparr> example_world
    = Inr (''{"'' @ [CHR 0xC5, CHR 0xBF] @ ''ymlinks":5}'')\<close>
    by code_simp
  have p4: \<open>json_parse example_host (''{"'' @ [CHR 0xC5, CHR 0xBF] @ ''ymlinks":5}'') = Some ?folded\<close>
    by code_simp
  have s4: "\<not> plan_shape ?folded"
    by code_simp
  have o3: "OpenFile ''/plans/empty.json'' [O_RDONLY] example_world
    = (Inr \<lparr>h_loc = [''plans'', ''empty.json''], h_pos = 0, h_append = False\<rparr>, example_world)"
    by code_simp
  have r3: "read_all \<lparr>h_loc = [''plans'', ''empty.json''], h_pos = 0, h_append = False\<rparr> example_world
    = Inr ''{}''"
    by code_simp
  have p3: "json_parse example_host ''{}'' = Some (JObject [])"
    by code_simp
  have s3: "plan_shape (JObject [])" "lacks ''symlinks'' (JObject [])"
    "lacks ''ld_cache_updates'' (JObject [])"
    by code_simp+
  from C3_decode_errors [of ?wrong "''/plans/wrong.json''" example_world _ example_world _ example_host]
    o2 r2 p2 s2
  have 2: "load_hooks example_host ''/plans/wrong.json'' example_world
     = Inl (FailedDecodingHooksFile (Inr UnmarshalTypeError))"
    by simp
  from C3_decode_errors [of ?folded "''/plans/folded.json''" example_world _ example_world _ example_host]
    o4 r4 p4 s4
  have 4: "load_hooks example_host ''/plans/folded.json'' example_world
     = Inl (FailedDecodingHooksFile (Inr UnmarshalTypeError))"
    by simp
  note t = C3_decode_errors [of "JObject []" "''/plans/empty.json''" example_world _ example_world _ example_host]
  from t s3 obtain hooks where d: "decode_Hooks (JObject []) = Inr hooks"
    and e: "Symlinks hooks = []" "LDCacheUpdates hooks = []"
    by blast
  from t o3 r3 p3 s3(1) d have "load_hooks example_host ''/plans/empty.json'' example_world = Inr hooks"
    by simp
  with d e have 3: "\<exists>hooks. decode_Hooks (JObject []) = Inr hooks \<and>
      load_hooks example_host ''/plans/empty.json'' example_world = Inr hooks \<and>
      Symlinks hooks = [] \<and> LDCacheUpdates hooks = []"
    by blast
  from 2 4 3 s2 s4 s3 show ?thesis by blast
qed

section \<open>The linker configuration\<close>

lemma remdups_snoc: "remdups (ys @ [u]) = filter (\<lambda>x. x \<noteq> u) (remdups ys) @ [u]"
  by (induction ys) auto

lemma first_occurrences_Cons:
  "first_occurrences (u # xs) = u # first_occurrences (filter (\<lambda>x. x \<noteq> u) xs)"
  by (simp add: first_occurrences_def remdups_snoc remdups_filter rev_filter)

lemma first_occurrences_Nil: "first_occurrences [] = []"
  by (simp add: first_occurrences_def)

lemma set_first_occurrences: "set (first_occurrences xs) = set xs"
  by (simp add: first_occurrences_def)

lemma distinct_first_occurrences: "distinct (first_occurrences xs)"
  by (simp add: first_occurrences_def)

lemma lines_of_simps:
  "lines_of [] = []" "lines_of (u # us) = u @ CHR 0x0A # lines_of us"
  by (simp_all add: lines_of_def)

lemma put_node_twice: "put_node loc n2 (put_node loc n1 w) = put_node loc n2 w"
  by (simp add: put_node_def)

lemma file_not_root: "node_at w loc = Some (File data) \<Longrightarrow> loc \<noteq> []"
  by (auto simp: node_at_def)

lemma put_node_same: "node_at w loc = Some (File data) \<Longrightarrow> put_node loc (File data) w = w"
  by (auto simp: node_at_def put_node_def update_triv split: if_splits)

lemma node_at_put_same: "loc \<noteq> [] \<Longrightarrow> node_at (put_node loc n w) loc = Some n"
  by (simp add: node_at_def put_node_def update_conv')

lemma Fprintln_append:
  "h_append f \<Longrightarrow> node_at w (h_loc f) = Some (File data) \<Longrightarrow>
   Fprintln f u w = (None, f, put_node (h_loc f) (File (data @ u @ [CHR 0x0A])) w)"
  by (simp add: Fprintln_def Write_def)

lemma append_missing_result:
  "h_append f \<Longrightarrow> node_at w (h_loc f) = Some (File data) \<Longrightarrow>
   append_missing S us f w =
     (None, put_node (h_loc f)
        (File (data @ lines_of (first_occurrences (filter (\<lambda>u. u \<notin> S) us)))) w)"
proof (induction us arbitrary: S w data)
  case Nil
  then show ?case by (simp add: first_occurrences_Nil lines_of_simps put_node_same)
next
  case (Cons u us)
  show ?case
  proof (cases "u \<in> S")
    case True
    with Cons show ?thesis by simp
  next
    case False
    let ?w1 = "put_node (h_loc f) (File (data @ u @ [CHR 0x0A])) w"
    have n1: "node_at ?w1 (h_loc f) = Some (File (data @ u @ [CHR 0x0A]))"
      using Cons.prems(2) by (simp add: node_at_put_same file_not_root)
    have f: "filter (\<lambda>x. x \<noteq> u) (filter (\<lambda>u. u \<notin> S) us) = filter (\<lambda>x. x \<notin> insert u S) us"
      by (simp add: conj_commute)
    have g: "first_occurrences (filter (\<lambda>u. u \<notin> S) (u # us))
               = u # first_occurrences (filter (\<lambda>x. x \<notin> insert u S) us)"
    proof -
      have "filter (\<lambda>u. u \<notin> S) (u # us) = u # filter (\<lambda>u. u \<notin> S) us"
        using False by simp
      then show ?thesis by (simp only: first_occurrences_Cons f)
    qed
    have "append_missing S (u # us) f w = append_missing (insert u S) us f ?w1"
      using False Cons.prems by (simp add: Fprintln_append)
    also have "\<dots> = (None, put_node (h_loc f)
        (File ((data @ u @ [CHR 0x0A]) @ lines_of (first_occurrences (filter (\<lambda>x. x \<notin> insert u S) us)))) ?w1)"
      using Cons.prems(1) n1 by (rule Cons.IH)
    finally show ?thesis
      unfolding g by (simp add: lines_of_simps put_node_twice)
  qed
qed

lemma Fprintln_at_end:
  "\<not> h_append f \<Longrightarrow> node_at w (h_loc f) = Some (File data) \<Longrightarrow> h_pos f = length data \<Longrightarrow>
   Fprintln f u w =
     (None, f\<lparr>h_pos := length (data @ u @ [CHR 0x0A])\<rparr>,
      put_node (h_loc f) (File (data @ u @ [CHR 0x0A])) w)"
  by (simp add: Fprintln_def Write_def)

lemma write_entries_result:
  "\<not> h_append f \<Longrightarrow> node_at w (h_loc f) = Some (File data) \<Longrightarrow> h_pos f = length data \<Longrightarrow>
   write_entries us f w = (None, put_node (h_loc f) (File (data @ lines_of us)) w)"
proof (induction us arbitrary: f w data)
  case Nil
  then show ?case by (simp add: lines_of_simps put_node_same)
next
  case (Cons u us)
  let ?f1 = "f\<lparr>h_pos := length (data @ u @ [CHR 0x0A])\<rparr>"
  let ?w1 = "put_node (h_loc f) (File (data @ u @ [CHR 0x0A])) w"
  have n1: "node_at ?w1 (h_loc ?f1) = Some (File (data @ u @ [CHR 0x0A]))"
    using Cons.prems(2) by (simp add: node_at_put_same file_not_root)
  have "write_entries (u # us) f w = write_entries us ?f1 ?w1"
    using Cons.prems by (simp add: Fprintln_at_end del: length_append)
  also have "\<dots> = (None, put_node (h_loc ?f1) (File ((data @ u @ [CHR 0x0A]) @ lines_of us)) ?w1)"
    using Cons.prems(1) n1 by (intro Cons.IH) simp_all
  finally show ?case
    by (simp add: lines_of_simps put_node_twice)
qed

lemma merge_existing_file:
  assumes "MkdirAll (Join [root, ''etc'', ''ld.so.conf.d'']) w = (None, w1)"
    and "namei w1 True (ldConfFilePath root) = Inr loc"
    and "node_at w1 loc = Some (File data)"
  shows "merge_linker_conf root updates w =
     (None, put_node loc
        (File (data @ lines_of (first_occurrences
           (filter (\<lambda>u. u \<notin> set (map TrimSpace (scan_lines data))) updates)))) w1)"
proof -
  let ?f = "\<lparr>h_loc = loc, h_pos = 0, h_append = True\<rparr>"
  have st: "Stat w1 (ldConfFilePath root) = Inr (File data)"
    using assms(2,3) by (simp add: Stat_def)
  have op: "OpenFile (ldConfFilePath root) [O_APPEND, O_RDWR] w1 = (Inr ?f, w1)"
    using assms(2,3) by (simp add: OpenFile_def)
  have ex: "existing_entries ?f w1 = set (map TrimSpace (scan_lines data))"
    using assms(3) by (simp add: existing_entries_def read_all_def)
  have ap: "append_missing (set (map TrimSpace (scan_lines data))) updates ?f w1 =
     (None, put_node (h_loc ?f)
        (File (data @ lines_of (first_occurrences
           (filter (\<lambda>u. u \<notin> set (map TrimSpace (scan_lines data))) updates)))) w1)"
    by (rule append_missing_result) (simp_all add: assms(3))
  have hl: "h_loc ?f = loc" by simp
  show ?thesis
    by (simp only: merge_linker_conf_def assms(1) st op ex ap hl prod.case option.case sum.case)
qed

lemma merge_missing_file:
  assumes "MkdirAll (Join [root, ''etc'', ''ld.so.conf.d'']) w = (None, w1)"
    and "namei w1 True (ldConfFilePath root) = Inr loc"
    and "node_at w1 loc = None"
  shows "merge_linker_conf root updates w = (None, put_node loc (File (lines_of updates)) w1)"
proof -
  let ?f = "\<lparr>h_loc = loc, h_pos = 0, h_append = False\<rparr>"
  let ?w2 = "put_node loc (File []) w1"
  have ne: "loc \<noteq> []" using assms(3) by (auto simp: node_at_def)
  have st: "Stat w1 (ldConfFilePath root) = Inl ENOENT"
    using assms(2,3) by (simp add: Stat_def)
  have op: "OpenFile (ldConfFilePath root) [O_CREATE, O_WRONLY] w1 = (Inr ?f, ?w2)"
    using assms(2,3) by (simp add: OpenFile_def)
  have "write_entries updates ?f ?w2 = (None, put_node (h_loc ?f) (File ([] @ lines_of updates)) ?w2)"
    by (rule write_entries_result) (simp_all add: node_at_put_same ne)
  then have wr: "write_entries updates ?f ?w2 = (None, put_node loc (File (lines_of updates)) w1)"
    by (simp add: put_node_twice)
  have "is_ErrNotExist ENOENT" by (simp add: is_ErrNotExist_def)
  then show ?thesis
    by (simp only: merge_linker_conf_def assms(1) st op wr prod.case option.case sum.case if_True)
qed



lemma strip_runs_suffix: "suffix (strip_runs qs s) s"
proof (induction qs s rule: strip_runs.induct)
  case (1 qs s)
  show ?case
  proof (cases "find (\<lambda>q. q \<noteq> [] \<and> prefix q s) qs")
    case None
    then show ?thesis by (subst strip_runs.simps) simp
  next
    case (Some q)
    with 1 have "suffix (strip_runs qs (drop (length q) s)) (drop (length q) s)" by simp
    then have "suffix (strip_runs qs (drop (length q) s)) s"
      using suffix_drop suffix_order.trans by blast
    with Some show ?thesis by (subst strip_runs.simps) simp
  qed
qed

lemma strip_runs_done:
  "find (\<lambda>q. q \<noteq> [] \<and> prefix q (strip_runs qs s)) qs = None"
proof (induction qs s rule: strip_runs.induct)
  case (1 qs s)
  show ?case
  proof (cases "find (\<lambda>q. q \<noteq> [] \<and> prefix q s) qs")
    case None
    then show ?thesis by (subst strip_runs.simps) simp
  next
    case (Some q)
    with 1 show ?thesis by (subst strip_runs.simps) simp
  qed
qed

lemma strip_runs_id:
  "find (\<lambda>q. q \<noteq> [] \<and> prefix q s) qs = None \<Longrightarrow> strip_runs qs s = s"
  by (subst strip_runs.simps) simp

lemma TrimSpace_idem: "TrimSpace (TrimSpace s) = TrimSpace s"
proof -
  let ?a = "strip_runs white_space s"
  let ?b = "strip_runs (map rev white_space) (rev ?a)"
  have t: "TrimSpace s = rev ?b" by (simp add: TrimSpace_def)
  have "suffix ?b (rev ?a)" by (rule strip_runs_suffix)
  then have pre: "prefix (rev ?b) ?a"
    by (metis rev_rev_ident suffix_to_prefix)
  have "find (\<lambda>q. q \<noteq> [] \<and> prefix q (rev ?b)) white_space = None"
  proof -
    have "find (\<lambda>q. q \<noteq> [] \<and> prefix q ?a) white_space = None"
      by (rule strip_runs_done)
    then have "\<forall>q\<in>set white_space. \<not> (q \<noteq> [] \<and> prefix q ?a)"
      by (simp add: find_None_iff)
    then have "\<forall>q\<in>set white_space. \<not> (q \<noteq> [] \<and> prefix q (rev ?b))"
      using pre prefix_order.trans by blast
    then show ?thesis by (simp add: find_None_iff)
  qed
  then have 1: "strip_runs white_space (rev ?b) = rev ?b"
    by (rule strip_runs_id)
  have "find (\<lambda>q. q \<noteq> [] \<and> prefix q ?b) (map rev white_space) = None"
    by (rule strip_runs_done)
  then have 2: "strip_runs (map rev white_space) ?b = ?b"
    by (rule strip_runs_id)
  have "TrimSpace (rev ?b) = rev ?b"
    by (simp only: TrimSpace_def [of "rev ?b"] 1 2 rev_rev_ident)
  then show ?thesis by (simp only: t)
qed

lemma untrimmed_not_existing: "u \<noteq> TrimSpace u \<Longrightarrow> u \<notin> set (map TrimSpace ls)"
  using TrimSpace_idem by (metis (no_types) imageE list.set_map)

lemma split_nl_nonempty: "split_nl s \<noteq> []"
  by (induction s) (auto split: list.splits)

lemma split_nl_single: "CHR 0x0A \<notin> set e \<Longrightarrow> split_nl e = [e]"
  by (induction e) auto

lemma split_nl_append: "split_nl (a @ CHR 0x0A # b) = split_nl a @ split_nl b"
  by (induction a) (auto split: list.splits simp: split_nl_nonempty)

lemma raw_lines_Nil: "raw_lines [] = []"
  by (simp add: raw_lines_def)

lemma raw_lines_terminated: "raw_lines (d @ [CHR 0x0A]) = split_nl d"
  by (simp add: raw_lines_def split_nl_append Let_def)

lemma split_nl_after_lines:
  assumes "d = [] \<or> last d = CHR 0x0A" and "CHR 0x0A \<notin> set v"
  shows "split_nl (d @ v) = raw_lines d @ [v]"
proof (cases "d = []")
  case True
  with assms show ?thesis by (simp add: raw_lines_Nil split_nl_single)
next
  case False
  with assms(1) obtain d' where d: "d = d' @ [CHR 0x0A]"
    by (metis append_butlast_last_id)
  show ?thesis
    unfolding d raw_lines_terminated using assms(2)
    by (simp add: split_nl_append split_nl_single)
qed

lemma raw_lines_append_lines:
  assumes "d = [] \<or> last d = CHR 0x0A" and "\<forall>u\<in>set us. CHR 0x0A \<notin> set u"
  shows "raw_lines (d @ lines_of us) = raw_lines d @ us"
  using assms
proof (induction us arbitrary: d)
  case Nil
  then show ?case by (simp add: lines_of_simps)
next
  case (Cons u us)
  let ?d1 = "d @ u @ [CHR 0x0A]"
  have "raw_lines (?d1 @ lines_of us) = raw_lines ?d1 @ us"
    by (rule Cons.IH) (use Cons.prems in simp_all)
  moreover have "raw_lines ?d1 = raw_lines d @ [u]"
    using raw_lines_terminated [of "d @ u"] split_nl_after_lines [of d u] Cons.prems by simp
  ultimately show ?case by (simp add: lines_of_simps)
qed

lemma scan_lines_append_lines:
  assumes "d = [] \<or> last d = CHR 0x0A"
    and "\<forall>l\<in>set (raw_lines d). int (length l) < MaxScanTokenSize"
    and "\<forall>u\<in>set us. CHR 0x0A \<notin> set u \<and> int (length u) < MaxScanTokenSize \<and>
            (u = [] \<or> last u \<noteq> CHR 0x0D)"
  shows "scan_lines (d @ lines_of us) = scan_lines d @ us"
proof -
  have r: "raw_lines (d @ lines_of us) = raw_lines d @ us"
    using assms(1,3) by (intro raw_lines_append_lines) auto
  have "\<forall>l\<in>set (raw_lines d @ us). int (length l) < MaxScanTokenSize"
    using assms(2,3) by auto
  then have 1: "takeWhile (\<lambda>l. int (length l) < MaxScanTokenSize) (raw_lines d @ us) = raw_lines d @ us"
    by (simp add: takeWhile_eq_all_conv)
  have 2: "takeWhile (\<lambda>l. int (length l) < MaxScanTokenSize) (raw_lines d) = raw_lines d"
    using assms(2) by (simp add: takeWhile_eq_all_conv)
  have 3: "map dropCR us = us"
    using assms(3) by (intro map_idI) (auto simp: dropCR_def)
  show ?thesis
    unfolding scan_lines_def r 1 2 by (simp add: 3)
qed



section \<open>The linker configuration: claims\<close>

text \<open>
  Claim C2, as stated, fails, in two ways.  The claim says that an update occurring twice
  in the list is written at most once, also when the configuration file did not exist.  In
  that case lines 172 to 187 write every update: with no file under \<open>/fs\<close> and the same
  update twice, the file made holds the line twice.  The claim also says that the lines of
  an existing file stay untouched and that the new updates follow them.  The file is opened
  for appending (line 148) and each update is written followed by a newline (line 161),
  nothing being written before the first one: when the file does not end with a newline,
  the first update written goes onto its last line.
\<close>

theorem C2_counterexample:
  "Stat bare_world (ldConfFilePath ''/fs'') = Inl ENOENT \<and>
   fst (merge_linker_conf ''/fs'' [''/opt/c/lib'', ''/opt/c/lib''] bare_world) = None \<and>
   node_at (snd (merge_linker_conf ''/fs'' [''/opt/c/lib'', ''/opt/c/lib''] bare_world))
     [''fs'', ''etc'', ''ld.so.conf.d'', ''00-lxdcdi.conf'']
     = Some (File (''/opt/c/lib'' @ [CHR 0x0A] @ ''/opt/c/lib'' @ [CHR 0x0A])) \<and>
   scan_lines (''/opt/c/lib'' @ [CHR 0x0A] @ ''/opt/c/lib'' @ [CHR 0x0A])
     = [''/opt/c/lib'', ''/opt/c/lib''] \<and>
   node_at unterminated_world [''fs'', ''etc'', ''ld.so.conf.d'', ''00-lxdcdi.conf'']
     = Some (File ''/opt/a/lib'') \<and>
   scan_lines ''/opt/a/lib'' = [''/opt/a/lib''] \<and>
   fst (merge_linker_conf ''/fs'' [''/opt/c/lib''] unterminated_world) = None \<and>
   node_at (snd (merge_linker_conf ''/fs'' [''/opt/c/lib''] unterminated_world))
     [''fs'', ''etc'', ''ld.so.conf.d'', ''00-lxdcdi.conf'']
     = Some (File (''/opt/a/lib/opt/c/lib'' @ [CHR 0x0A])) \<and>
   scan_lines (''/opt/a/lib/opt/c/lib'' @ [CHR 0x0A]) = [''/opt/a/lib/opt/c/lib'']"
  by code_simp

text \<open>
  Claim C2, as amended.  For a list of updates that is not empty, once the directory is
  there and the name of the file resolves.  When the file exists, is empty or ends with a
  newline, and has no line too long for the scanner: the scanner reads all its lines; what
  the file holds stays, and after it come, in the given order, one per line and each once,
  the updates that are not among its trimmed lines; and when no update holds a newline,
  ends with a carriage return or is too long for the scanner, the lines of the file are
  then its lines before followed by those updates.  When the file does not exist: it is
  made with every update, one per line in the given order, an update that occurs twice
  being written twice; and under the same condition on the updates its lines are the
  updates.  What the merge does with a file that does not end with a newline, or that has
  a line too long for the scanner, is left out.
\<close>

theorem C2_merge_appends:
  assumes "MkdirAll (Join [containerRootFSMount, ''etc'', ''ld.so.conf.d'']) w = (None, w1)"
    and "namei w1 True (ldConfFilePath containerRootFSMount) = Inr loc"
    and "updates \<noteq> []"
  shows "(\<forall>data.
            node_at w1 loc = Some (File data) \<and>
            (data = [] \<or> last data = CHR 0x0A) \<and>
            (\<forall>l\<in>set (raw_lines data). int (length l) < MaxScanTokenSize) \<longrightarrow>
            scan_lines data = map dropCR (raw_lines data) \<and>
            merge_linker_conf containerRootFSMount updates w =
              (None, put_node loc
                 (File (data @ lines_of (first_occurrences
                    (filter (\<lambda>u. u \<notin> set (map TrimSpace (scan_lines data))) updates)))) w1) \<and>
            ((\<forall>u\<in>set updates. CHR 0x0A \<notin> set u \<and> int (length u) < MaxScanTokenSize \<and>
                               (u = [] \<or> last u \<noteq> CHR 0x0D)) \<longrightarrow>
             scan_lines (data @ lines_of (first_occurrences
                    (filter (\<lambda>u. u \<notin> set (map TrimSpace (scan_lines data))) updates)))
               = scan_lines data @ first_occurrences
                    (filter (\<lambda>u. u \<notin> set (map TrimSpace (scan_lines data))) updates))) \<and>
         (node_at w1 loc = None \<longrightarrow>
            merge_linker_conf containerRootFSMount updates w =
              (None, put_node loc (File (lines_of updates)) w1) \<and>
            ((\<forall>u\<in>set updates. CHR 0x0A \<notin> set u \<and> int (length u) < MaxScanTokenSize \<and>
                               (u = [] \<or> last u \<noteq> CHR 0x0D)) \<longrightarrow>
             scan_lines (lines_of updates) = updates))"
proof (intro conjI allI impI)
  fix data
  assume a: "node_at w1 loc = Some (File data) \<and>
            (data = [] \<or> last data = CHR 0x0A) \<and>
            (\<forall>l\<in>set (raw_lines data). int (length l) < MaxScanTokenSize)"
  let ?new = "first_occurrences
                (filter (\<lambda>u. u \<notin> set (map TrimSpace (scan_lines data))) updates)"
  from a have "takeWhile (\<lambda>l. int (length l) < MaxScanTokenSize) (raw_lines data) = raw_lines data"
    by (intro iffD2 [OF takeWhile_eq_all_conv]) blast
  then show "scan_lines data = map dropCR (raw_lines data)"
    unfolding scan_lines_def by (rule arg_cong)
  from a assms(1,2) show "merge_linker_conf containerRootFSMount updates w =
              (None, put_node loc (File (data @ lines_of ?new)) w1)"
    by (intro merge_existing_file) blast+
  assume u: "\<forall>u\<in>set updates. CHR 0x0A \<notin> set u \<and> int (length u) < MaxScanTokenSize \<and>
                               (u = [] \<or> last u \<noteq> CHR 0x0D)"
  have "set ?new \<subseteq> set updates" by (auto simp: set_first_occurrences)
  with u have "\<forall>u\<in>set ?new. CHR 0x0A \<notin> set u \<and> int (length u) < MaxScanTokenSize \<and>
                               (u = [] \<or> last u \<noteq> CHR 0x0D)"
    by blast
  with a show "scan_lines (data @ lines_of ?new) = scan_lines data @ ?new"
    by (intro scan_lines_append_lines) blast+
next
  assume "node_at w1 loc = None"
  with assms(1,2) show "merge_linker_conf containerRootFSMount updates w =
              (None, put_node loc (File (lines_of updates)) w1)"
    by (rule merge_missing_file)
next
  assume u: "\<forall>u\<in>set updates. CHR 0x0A \<notin> set u \<and> int (length u) < MaxScanTokenSize \<and>
                               (u = [] \<or> last u \<noteq> CHR 0x0D)"
  have "scan_lines ([] @ lines_of updates) = scan_lines [] @ updates"
    using u by (intro scan_lines_append_lines) (simp_all add: raw_lines_Nil)
  moreover have "scan_lines [] = []" by (simp add: scan_lines_def raw_lines_Nil)
  ultimately show "scan_lines (lines_of updates) = updates" by simp
qed

theorem C2_merge_appends_witness:
  "merge_linker_conf ''/fs'' [''/opt/a/lib'', ''/opt/c/lib'', ''/opt/c/lib''] example_world =
     (None, put_node [''fs'', ''etc'', ''ld.so.conf.d'', ''00-lxdcdi.conf'']
        (File (''/opt/a/lib'' @ [CHR 0x0A] @ ''/opt/c/lib'' @ [CHR 0x0A])) example_world) \<and>
   scan_lines (''/opt/a/lib'' @ [CHR 0x0A] @ ''/opt/c/lib'' @ [CHR 0x0A])
     = [''/opt/a/lib'', ''/opt/c/lib''] \<and>
   merge_linker_conf ''/fs'' [''/opt/x/lib''] bare_world =
     (None, put_node [''fs'', ''etc'', ''ld.so.conf.d'', ''00-lxdcdi.conf'']
        (File (''/opt/x/lib'' @ [CHR 0x0A]))
        (snd (MkdirAll ''/fs/etc/ld.so.conf.d'' bare_world))) \<and>
   scan_lines (''/opt/x/lib'' @ [CHR 0x0A]) = [''/opt/x/lib'']"
proof -
  let ?loc = "[''fs'', ''etc'', ''ld.so.conf.d'', ''00-lxdcdi.conf'']"
  let ?data = "''/opt/a/lib'' @ [CHR 0x0A]"
  let ?ups = "[''/opt/a/lib'', ''/opt/c/lib'', ''/opt/c/lib'']"
  have mk: "MkdirAll (Join [''/fs'', ''etc'', ''ld.so.conf.d'']) example_world = (None, example_world)"
    by code_simp
  have nm: "namei example_world True (ldConfFilePath ''/fs'') = Inr ?loc"
    by code_simp
  have ne: "?ups \<noteq> []" by simp
  have nd: "node_at example_world ?loc = Some (File ?data)"
    by code_simp
  have h1: "?data = [] \<or> last ?data = CHR 0x0A" by simp
  have rl: "raw_lines ?data = [''/opt/a/lib'']" by code_simp
  have h2: "\<forall>l\<in>set (raw_lines ?data). int (length l) < MaxScanTokenSize"
    unfolding rl by (simp add: MaxScanTokenSize_def)
  have h3: "\<forall>u\<in>set ?ups. CHR 0x0A \<notin> set u \<and> int (length u) < MaxScanTokenSize \<and>
                          (u = [] \<or> last u \<noteq> CHR 0x0D)"
    by (simp add: MaxScanTokenSize_def)
  have sl: "scan_lines ?data = [''/opt/a/lib'']" by code_simp
  have fo: "first_occurrences
              (filter (\<lambda>u. u \<notin> set (map TrimSpace (scan_lines ?data))) ?ups) = [''/opt/c/lib'']"
    by code_simp
  have lo: "lines_of [''/opt/c/lib''] = ''/opt/c/lib'' @ [CHR 0x0A]" by code_simp
  note t = C2_merge_appends [OF mk nm ne]
  from t nd h1 h2 have "merge_linker_conf ''/fs'' ?ups example_world =
     (None, put_node ?loc
        (File (?data @ lines_of (first_occurrences
           (filter (\<lambda>u. u \<notin> set (map TrimSpace (scan_lines ?data))) ?ups)))) example_world)"
    by blast
  then have 1: "merge_linker_conf ''/fs'' ?ups example_world =
     (None, put_node ?loc (File (?data @ ''/opt/c/lib'' @ [CHR 0x0A])) example_world)"
    by (simp only: fo lo)
  from t nd h1 h2 h3 have "scan_lines (?data @ lines_of (first_occurrences
           (filter (\<lambda>u. u \<notin> set (map TrimSpace (scan_lines ?data))) ?ups)))
     = scan_lines ?data @ first_occurrences
           (filter (\<lambda>u. u \<notin> set (map TrimSpace (scan_lines ?data))) ?ups)"
    by blast
  then have "scan_lines (?data @ lines_of [''/opt/c/lib'']) = scan_lines ?data @ [''/opt/c/lib'']"
    by (simp only: fo)
  with sl lo have 2: "scan_lines (?data @ ''/opt/c/lib'' @ [CHR 0x0A]) = [''/opt/a/lib'', ''/opt/c/lib'']"
    by simp
  let ?w1 = "snd (MkdirAll ''/fs/etc/ld.so.conf.d'' bare_world)"
  have j: "Join [''/fs'', ''etc'', ''ld.so.conf.d''] = ''/fs/etc/ld.so.conf.d''"
    by code_simp
  have "fst (MkdirAll ''/fs/etc/ld.so.conf.d'' bare_world) = None" by code_simp
  then have mk': "MkdirAll (Join [''/fs'', ''etc'', ''ld.so.conf.d'']) bare_world = (None, ?w1)"
    unfolding j by (metis prod.collapse)
  have nm': "namei ?w1 True (ldConfFilePath ''/fs'') = Inr ?loc"
    by code_simp
  have nd': "node_at ?w1 ?loc = None"
    by code_simp
  have ne': "[''/opt/x/lib''] \<noteq> []" by simp
  have h3': "\<forall>u\<in>set [''/opt/x/lib'']. CHR 0x0A \<notin> set u \<and> int (length u) < MaxScanTokenSize \<and>
                          (u = [] \<or> last u \<noteq> CHR 0x0D)"
    by (simp add: MaxScanTokenSize_def)
  have lo': "lines_of [''/opt/x/lib''] = ''/opt/x/lib'' @ [CHR 0x0A]" by code_simp
  note t' = C2_merge_appends [OF mk' nm' ne']
  from t' nd'
  have "merge_linker_conf ''/fs'' [''/opt/x/lib''] bare_world =
     (None, put_node ?loc (File (lines_of [''/opt/x/lib''])) ?w1)"
    by blast
  then have 3: "merge_linker_conf ''/fs'' [''/opt/x/lib''] bare_world =
     (None, put_node ?loc (File (''/opt/x/lib'' @ [CHR 0x0A])) ?w1)"
    by (simp only: lo')
  from t' nd' h3' have "scan_lines (lines_of [''/opt/x/lib'']) = [''/opt/x/lib'']"
    by blast
  then have 4: "scan_lines (''/opt/x/lib'' @ [CHR 0x0A]) = [''/opt/x/lib'']"
    by (simp only: lo')
  from 1 2 3 4 show ?thesis by (simp only: append_assoc simp_thms)
qed

text \<open>
  Claim C9, as stated, fails.  The claim says that an update that differs from an existing
  line only by white space around the line or around the update is taken as not present
  and appended.  The lines are trimmed before they enter the set (line 156): an update
  equal to a line without the white space around that line is found there, and is not
  appended.
\<close>

theorem C9_counterexample:
  "scan_lines (''  /opt/a/lib '' @ [CHR 0x0A]) = [''  /opt/a/lib ''] \<and>
   node_at spaced_world [''fs'', ''etc'', ''ld.so.conf.d'', ''00-lxdcdi.conf'']
     = Some (File (''  /opt/a/lib '' @ [CHR 0x0A])) \<and>
   ''/opt/a/lib'' \<noteq> ''  /opt/a/lib '' \<and>
   TrimSpace ''/opt/a/lib'' = TrimSpace ''  /opt/a/lib '' \<and>
   merge_linker_conf ''/fs'' [''/opt/a/lib''] spaced_world = (None, spaced_world)"
  by code_simp


text \<open>
  Claim C9, as amended.  In the branch for an existing file the lines are trimmed before
  they enter the set and each update is looked up as it is: an update with white space
  around it is never found among the lines of the file, and is appended (once); an update
  that is a line of the file without the white space around that line is found, and is not
  appended.  What is appended are updates, each once.
\<close>

theorem C9_verbatim_lookup:
  assumes "MkdirAll (Join [containerRootFSMount, ''etc'', ''ld.so.conf.d'']) w = (None, w1)"
    and "namei w1 True (ldConfFilePath containerRootFSMount) = Inr loc"
    and "node_at w1 loc = Some (File data)"
  shows "\<exists>appended.
           merge_linker_conf containerRootFSMount updates w =
             (None, put_node loc (File (data @ lines_of appended)) w1) \<and>
           set appended \<subseteq> set updates \<and> distinct appended \<and>
           (\<forall>u\<in>set updates. u \<noteq> TrimSpace u \<longrightarrow> u \<in> set appended) \<and>
           (\<forall>l\<in>set (scan_lines data). TrimSpace l \<notin> set appended)"
proof -
  let ?S = "set (map TrimSpace (scan_lines data))"
  let ?app = "first_occurrences (filter (\<lambda>u. u \<notin> ?S) updates)"
  have s: "set ?app = {u \<in> set updates. u \<notin> ?S}"
    by (simp add: set_first_occurrences)
  have "merge_linker_conf containerRootFSMount updates w =
             (None, put_node loc (File (data @ lines_of ?app)) w1)"
    using assms by (rule merge_existing_file)
  moreover have "set ?app \<subseteq> set updates" unfolding s by blast
  moreover have "distinct ?app" by (rule distinct_first_occurrences)
  moreover have "\<forall>u\<in>set updates. u \<noteq> TrimSpace u \<longrightarrow> u \<in> set ?app"
    unfolding s using untrimmed_not_existing by blast
  moreover have "\<forall>l\<in>set (scan_lines data). TrimSpace l \<notin> set ?app"
    unfolding s by simp
  ultimately show ?thesis by blast
qed

theorem C9_verbatim_lookup_witness:
  "\<exists>appended.
     merge_linker_conf ''/fs'' ['' /opt/a/lib'', ''/opt/a/lib''] spaced_world =
       (None, put_node [''fs'', ''etc'', ''ld.so.conf.d'', ''00-lxdcdi.conf'']
          (File ((''  /opt/a/lib '' @ [CHR 0x0A]) @ lines_of appended)) spaced_world) \<and>
     '' /opt/a/lib'' \<in> set appended \<and> ''/opt/a/lib'' \<notin> set appended"
proof -
  let ?loc = "[''fs'', ''etc'', ''ld.so.conf.d'', ''00-lxdcdi.conf'']"
  let ?data = "''  /opt/a/lib '' @ [CHR 0x0A]"
  have mk: "MkdirAll (Join [''/fs'', ''etc'', ''ld.so.conf.d'']) spaced_world = (None, spaced_world)"
    by code_simp
  have nm: "namei spaced_world True (ldConfFilePath ''/fs'') = Inr ?loc"
    by code_simp
  have nd: "node_at spaced_world ?loc = Some (File ?data)"
    by code_simp
  have u: "'' /opt/a/lib'' \<noteq> TrimSpace '' /opt/a/lib''" by code_simp
  have l: "''  /opt/a/lib '' \<in> set (scan_lines ?data)" by code_simp
  have tl: "TrimSpace ''  /opt/a/lib '' = ''/opt/a/lib''" by code_simp
  from C9_verbatim_lookup [OF mk nm nd, of "['' /opt/a/lib'', ''/opt/a/lib'']"]
  obtain appended where
    a: "merge_linker_conf ''/fs'' ['' /opt/a/lib'', ''/opt/a/lib''] spaced_world =
         (None, put_node ?loc (File (?data @ lines_of appended)) spaced_world)"
    and b: "\<forall>u\<in>set ['' /opt/a/lib'', ''/opt/a/lib'']. u \<noteq> TrimSpace u \<longrightarrow> u \<in> set appended"
    and c: "\<forall>l\<in>set (scan_lines ?data). TrimSpace l \<notin> set appended"
    by blast
  from b u have 1: "'' /opt/a/lib'' \<in> set appended" by simp
  from c l have "TrimSpace ''  /opt/a/lib '' \<notin> set appended" by blast
  with tl have 2: "''/opt/a/lib'' \<notin> set appended" by simp
  from a 1 2 show ?thesis by blast
qed

end
